(* ===== verification/Prelude.thy ===== *)
theory Prelude
  imports Main "HOL-Library.List_Lexorder" "HOL-Library.Char_ord"
begin

text \<open>
  Shared vocabulary of the development: the characters the program treats specially,
  the Go error values it creates (one constructor per \<open>fmt.Errorf\<close> call site of
  \<open>src/main.go\<close>), the \<open>errors.Is(err, syscall.ENOENT)\<close> test, the collection
  \<open>reg_simps\<close> of evaluation rules for the registry model, and generic lemmas on
  association lists that the component theories share.
\<close>

named_theorems reg_simps "evaluation rules of the registry operations"

type_synonym keypath = "string list"

definition backslash :: char where
  "backslash = CHR 0x5C"

definition dquote :: char where
  "dquote = CHR 0x22"

subsection \<open>Errors\<close>

text \<open>
  The Win32 error numbers the registry adapter reports. \<open>syscall.ENOENT\<close> is
  \<open>ERROR_FILE_NOT_FOUND\<close> on Windows.
\<close>

datatype errno = ERROR_FILE_NOT_FOUND | ERROR_ACCESS_DENIED | ERROR_KEY_DELETED

text \<open>
  Go errors as values. Each wrapping constructor is one \<open>fmt.Errorf(\<dots> %w, err)\<close> of
  the source, carrying the values its format string prints; \<open>Fatal\<close> is
  \<open>log.Fatal\<close> (the process exits), \<open>NilDeref\<close> the runtime panic of a nil
  \<open>*ContextMenu\<close> dereference.
\<close>

datatype error =
    Errno errno
  | ErrNotExist
  | EManifestNotFound error
  | EReadManifest error
  | EParseManifest error
  | ENircmdNotFound error
  | EDelOpen string error
  | EDelSubkeys string error
  | EDelSubkey string string error
  | EDelDelete string error
  | EDeleteKey string error
  | ECreateKey string error
  | ESetValue string error
  | ESetCommand error
  | EMenu string error
  | Fatal error
  | NilDeref

text \<open>\<open>errors.Is(err, syscall.ENOENT)\<close>: walk the \<open>%w\<close> chain looking for the errno.\<close>

fun is_enoent :: "error \<Rightarrow> bool" where
  "is_enoent (Errno e) = (e = ERROR_FILE_NOT_FOUND)"
| "is_enoent ErrNotExist = False"
| "is_enoent (EManifestNotFound e) = is_enoent e"
| "is_enoent (EReadManifest e) = is_enoent e"
| "is_enoent (EParseManifest e) = is_enoent e"
| "is_enoent (ENircmdNotFound e) = is_enoent e"
| "is_enoent (EDelOpen p e) = is_enoent e"
| "is_enoent (EDelSubkeys p e) = is_enoent e"
| "is_enoent (EDelSubkey n p e) = is_enoent e"
| "is_enoent (EDelDelete p e) = is_enoent e"
| "is_enoent (EDeleteKey p e) = is_enoent e"
| "is_enoent (ECreateKey p e) = is_enoent e"
| "is_enoent (ESetValue n e) = is_enoent e"
| "is_enoent (ESetCommand e) = is_enoent e"
| "is_enoent (EMenu n e) = is_enoent e"
| "is_enoent (Fatal e) = is_enoent e"
| "is_enoent NilDeref = False"

subsection \<open>Go's \<open>strings.Join\<close>\<close>

fun join_with :: "string \<Rightarrow> string list \<Rightarrow> string" where
  "join_with sep [] = []"
| "join_with sep [x] = x"
| "join_with sep (x # y # xs) = x @ sep @ join_with sep (y # xs)"

lemma join_with_Cons: "join_with sep (x # xs) = x @ concat (map (\<lambda>y. sep @ y) xs)"
  by (induction xs arbitrary: x) simp_all

subsection \<open>Generic lemmas on association lists\<close>

lemma map_fst_map_snd_pair [simp]:
  "map fst (map (\<lambda>(n, c). (n, f c)) cs) = map fst cs"
  by (induction cs) auto

lemma sum_list_map_pos_le:
  "(n, c) \<in> set cs \<Longrightarrow> (f c :: nat) \<le> sum_list (map (\<lambda>(n, c). f c) cs)"
  by (induction cs) (auto intro: trans_le_add2)

end
