(* ===== verification/RegPath.thy ===== *)
theory RegPath
  imports Prelude
begin

text \<open>
  Registry paths as the program builds them: strings whose segments are separated by a
  backslash (\<open>createContextMenu\<close> concatenates \<open>parent + `\` + id\<close>). The registry
  splits such a string into key names; \<open>split_path\<close> is that split.
\<close>

function split_path :: "string \<Rightarrow> string list" where
  "split_path s =
     (let seg = takeWhile (\<lambda>c. c \<noteq> backslash) s;
          rest = dropWhile (\<lambda>c. c \<noteq> backslash) s
      in if rest = [] then [seg] else seg # split_path (tl rest))"
  by pat_completeness auto
termination
proof (relation "measure length")
  fix s seg rest
  assume "seg = takeWhile (\<lambda>c. c \<noteq> backslash) s"
    and rest: "rest = dropWhile (\<lambda>c. c \<noteq> backslash) s" and "rest \<noteq> []"
  have "length rest \<le> length s" unfolding rest by (rule length_dropWhile_le)
  with \<open>rest \<noteq> []\<close> show "(tl rest, s) \<in> measure length" by (cases rest) auto
qed simp

declare split_path.simps [simp del]

definition valid_name :: "string \<Rightarrow> bool" where
  "valid_name n \<longleftrightarrow> backslash \<notin> set n"

subsection \<open>Splitting\<close>

lemma split_path_no_bs:
  assumes "backslash \<notin> set s"
  shows "split_path s = [s]"
proof -
  have "\<forall>c \<in> set s. c \<noteq> backslash" using assms by auto
  then show ?thesis by (subst split_path.simps) (simp add: Let_def)
qed

lemma split_path_Nil [simp]: "split_path [] = [[]]"
  by (rule split_path_no_bs) simp

lemma takeWhile_not_bs:
  "backslash \<notin> set a \<Longrightarrow> takeWhile (\<lambda>c. c \<noteq> backslash) (a @ backslash # b) = a"
  by (induction a) auto

lemma dropWhile_not_bs:
  "backslash \<notin> set a \<Longrightarrow> dropWhile (\<lambda>c. c \<noteq> backslash) (a @ backslash # b) = backslash # b"
  by (induction a) auto

lemma split_path_bs_append:
  "backslash \<notin> set a \<Longrightarrow> split_path (a @ backslash # b) = a # split_path b"
  by (subst split_path.simps) (simp add: takeWhile_not_bs dropWhile_not_bs)

lemma split_path_append_bs:
  "split_path (a @ backslash # b) = split_path a @ split_path b"
proof (induction a rule: split_path.induct)
  case (1 a)
  show ?case
  proof (cases "backslash \<in> set a")
    case False
    then show ?thesis by (simp add: split_path_bs_append split_path_no_bs)
  next
    case True
    then obtain x y where a: "a = x @ backslash # y" and x: "backslash \<notin> set x"
      by (metis split_list_first)
    have "split_path (x @ backslash # y @ backslash # b) = x # split_path (y @ backslash # b)"
      using x by (rule split_path_bs_append)
    also have "split_path (y @ backslash # b) = split_path y @ split_path b"
      using "1.IH"[of "takeWhile (\<lambda>c. c \<noteq> backslash) a" "dropWhile (\<lambda>c. c \<noteq> backslash) a"] a x
      by (simp add: takeWhile_not_bs dropWhile_not_bs)
    finally show ?thesis using a x by (simp add: split_path_bs_append)
  qed
qed

lemma split_path_nonempty [simp]: "split_path s \<noteq> []"
  by (subst split_path.simps) (simp add: Let_def)

lemma split_path_sub:
  "valid_name i \<Longrightarrow> split_path (a @ backslash # i) = split_path a @ [i]"
  by (simp add: split_path_append_bs split_path_no_bs valid_name_def)


lemma valid_split_path: "n \<in> set (split_path s) \<Longrightarrow> valid_name n"
proof (induction s arbitrary: n rule: split_path.induct)
  case (1 s)
  have "valid_name (takeWhile (\<lambda>c. c \<noteq> backslash) s)"
    by (auto simp: valid_name_def dest: set_takeWhileD)
  then show ?case using 1 by (subst (asm) split_path.simps) (auto simp: Let_def split: if_splits)
qed

end
