(* ===== verification/Registry.thy ===== *)
theory Registry
  imports RegPath "HOL-Library.Sublist" "HOL-Library.Multiset"
begin

text \<open>
  The namespace adapter: the part of \<open>golang.org/x/sys/windows/registry\<close> the
  program calls (\<open>OpenKey\<close>, \<open>Key.ReadSubKeyNames\<close>, \<open>CreateKey\<close>,
  \<open>DeleteKey\<close>, \<open>Key.SetStringValue\<close>, \<open>Key.SetExpandStringValue\<close>), modelled
  from the spec (section 4.1) and the Win32 contract, since that code is not part of the
  repository. The \<open>HKEY_CURRENT_USER\<close> hive is a tree of keys; a key has a
  \<open>locked\<close> flag (its security descriptor refuses this process write access), its
  values, and its subkeys. Key and value names compare case-insensitively (ASCII
  upper-casing) and subkeys are kept sorted by their upper-cased names, as the hive
  stores them; \<open>ReadSubKeyNames\<close> enumerates in that order. A handle is the path of
  the key it was opened on.
\<close>

datatype regval = REG_SZ string | REG_EXPAND_SZ string

datatype rkey = RKey (locked: bool) (vals: "(string \<times> regval) list") (subs: "(string \<times> rkey) list")

subsection \<open>Names\<close>

definition upcase :: "char \<Rightarrow> char" where
  "upcase c = (if CHR ''a'' \<le> c \<and> c \<le> CHR ''z'' then char_of (of_char c - 32 :: nat) else c)"

definition fold_name :: "string \<Rightarrow> string" where
  "fold_name n = map upcase n"

definition same_name :: "string \<Rightarrow> string \<Rightarrow> bool" where
  "same_name n m \<longleftrightarrow> fold_name n = fold_name m"

text \<open>Operations on a list of named entries (subkeys or values).\<close>

fun find_sub :: "string \<Rightarrow> (string \<times> 'a) list \<Rightarrow> 'a option" where
  "find_sub n [] = None"
| "find_sub n ((m, c) # cs) = (if same_name n m then Some c else find_sub n cs)"

fun repl_sub :: "string \<Rightarrow> 'a \<Rightarrow> (string \<times> 'a) list \<Rightarrow> (string \<times> 'a) list" where
  "repl_sub n d [] = []"
| "repl_sub n d ((m, c) # cs) = (if same_name n m then (m, d) # cs else (m, c) # repl_sub n d cs)"

fun del_sub :: "string \<Rightarrow> (string \<times> 'a) list \<Rightarrow> (string \<times> 'a) list" where
  "del_sub n [] = []"
| "del_sub n ((m, c) # cs) = (if same_name n m then cs else (m, c) # del_sub n cs)"

fun ins_sub :: "string \<Rightarrow> 'a \<Rightarrow> (string \<times> 'a) list \<Rightarrow> (string \<times> 'a) list" where
  "ins_sub n d [] = [(n, d)]"
| "ins_sub n d ((m, c) # cs) =
     (if fold_name n < fold_name m then (n, d) # (m, c) # cs else (m, c) # ins_sub n d cs)"

definition put_val :: "string \<Rightarrow> regval \<Rightarrow> (string \<times> regval) list \<Rightarrow> (string \<times> regval) list" where
  "put_val n v vs = (case find_sub n vs of None \<Rightarrow> vs @ [(n, v)] | Some _ \<Rightarrow> repl_sub n v vs)"

subsection \<open>Paths\<close>

fun lookup_key :: "rkey \<Rightarrow> keypath \<Rightarrow> rkey option" where
  "lookup_key k [] = Some k"
| "lookup_key (RKey l vs cs) (n # ns) =
     (case find_sub n cs of None \<Rightarrow> None | Some c \<Rightarrow> lookup_key c ns)"

text \<open>Apply a fallible change to the key at a path; a missing key is \<open>ERROR_FILE_NOT_FOUND\<close>.\<close>

fun at_key :: "keypath \<Rightarrow> (rkey \<Rightarrow> error + rkey) \<Rightarrow> rkey \<Rightarrow> error + rkey" where
  "at_key [] f k = f k"
| "at_key (n # ns) f (RKey l vs cs) =
     (case find_sub n cs of
        None \<Rightarrow> Inl (Errno ERROR_FILE_NOT_FOUND)
      | Some c \<Rightarrow> (case at_key ns f c of
                    Inl e \<Rightarrow> Inl e
                  | Inr c' \<Rightarrow> Inr (RKey l vs (repl_sub n c' cs))))"

fun new_keys :: "keypath \<Rightarrow> rkey" where
  "new_keys [] = RKey False [] []"
| "new_keys (n # ns) = RKey False [] [(n, new_keys ns)]"

text \<open>
  \<open>RegCreateKeyEx\<close>: open the key if it exists (refused if it is locked), otherwise
  create the missing tail of the path under the deepest existing key (refused if that
  key is locked).
\<close>

fun create_at :: "keypath \<Rightarrow> rkey \<Rightarrow> error + rkey" where
  "create_at [] k = (if locked k then Inl (Errno ERROR_ACCESS_DENIED) else Inr k)"
| "create_at (n # ns) (RKey l vs cs) =
     (case find_sub n cs of
        Some c \<Rightarrow> (case create_at ns c of
                     Inl e \<Rightarrow> Inl e
                   | Inr c' \<Rightarrow> Inr (RKey l vs (repl_sub n c' cs)))
      | None \<Rightarrow> if l then Inl (Errno ERROR_ACCESS_DENIED)
               else Inr (RKey l vs (ins_sub n (new_keys ns) cs)))"

text \<open>\<open>RegDeleteKey\<close> of one child: refused if it is locked or still has subkeys.\<close>

fun del_child :: "string \<Rightarrow> rkey \<Rightarrow> error + rkey" where
  "del_child n (RKey l vs cs) =
     (case find_sub n cs of
        None \<Rightarrow> Inl (Errno ERROR_FILE_NOT_FOUND)
      | Some c \<Rightarrow> if locked c \<or> subs c \<noteq> [] then Inl (Errno ERROR_ACCESS_DENIED)
                 else Inr (RKey l vs (del_sub n cs)))"

fun set_val :: "string \<Rightarrow> regval \<Rightarrow> rkey \<Rightarrow> rkey" where
  "set_val n v (RKey l vs cs) = RKey l (put_val n v vs) cs"

subsection \<open>The adapter operations\<close>

definition reg_open_key :: "rkey \<Rightarrow> keypath \<Rightarrow> error + keypath" where
  "reg_open_key s p =
     (case lookup_key s p of
        None \<Rightarrow> Inl (Errno ERROR_FILE_NOT_FOUND)
      | Some k \<Rightarrow> if locked k then Inl (Errno ERROR_ACCESS_DENIED) else Inr p)"

definition reg_subkey_names :: "rkey \<Rightarrow> keypath \<Rightarrow> error + string list" where
  "reg_subkey_names s h =
     (case lookup_key s h of
        None \<Rightarrow> Inl (Errno ERROR_KEY_DELETED)
      | Some k \<Rightarrow> Inr (map fst (subs k)))"

definition reg_create_key :: "rkey \<Rightarrow> keypath \<Rightarrow> error + rkey" where
  "reg_create_key s p = create_at p s"

definition reg_delete_key :: "rkey \<Rightarrow> keypath \<Rightarrow> error + rkey" where
  "reg_delete_key s p =
     (if p = [] then Inl (Errno ERROR_ACCESS_DENIED)
      else at_key (butlast p) (del_child (last p)) s)"

definition reg_set_value :: "rkey \<Rightarrow> keypath \<Rightarrow> string \<Rightarrow> regval \<Rightarrow> error + rkey" where
  "reg_set_value s h n v =
     (case lookup_key s h of
        None \<Rightarrow> Inl (Errno ERROR_KEY_DELETED)
      | Some _ \<Rightarrow> at_key h (\<lambda>k. Inr (set_val n v k)) s)"

subsection \<open>Well-formedness and size\<close>

text \<open>
  The hive invariant: at every key, subkeys are strictly sorted by upper-cased name (so
  no two differ only in case) and value names are distinct up to case.
\<close>

definition sorted_names :: "(string \<times> 'a) list \<Rightarrow> bool" where
  "sorted_names cs \<longleftrightarrow> sorted_wrt (\<lambda>a b. fold_name (fst a) < fold_name (fst b)) cs"

fun wf_key :: "rkey \<Rightarrow> bool" where
  "wf_key (RKey l vs cs) \<longleftrightarrow>
     sorted_names cs \<and> distinct (map (fold_name \<circ> fst) vs) \<and>
     (\<forall>(n, c) \<in> set cs. valid_name n \<and> wf_key c)"

fun ksize :: "rkey \<Rightarrow> nat" where
  "ksize (RKey l vs cs) = Suc (sum_list (map (\<lambda>(n, c). ksize c) cs))"

definition size_at :: "rkey \<Rightarrow> keypath \<Rightarrow> nat" where
  "size_at s p = (case lookup_key s p of None \<Rightarrow> 0 | Some k \<Rightarrow> ksize k)"

text \<open>No key of the tree is locked.\<close>

fun unlocked :: "rkey \<Rightarrow> bool" where
  "unlocked (RKey l vs cs) \<longleftrightarrow> \<not> l \<and> (\<forall>(n, c) \<in> set cs. unlocked c)"

subsection \<open>Total updates along a path\<close>

text \<open>
  The reference operations the adapter's effects are described by: \<open>map_at\<close> changes
  the key at a path (nothing if it is missing), \<open>remove_at\<close> removes it from its
  parent.
\<close>

fun map_at :: "keypath \<Rightarrow> (rkey \<Rightarrow> rkey) \<Rightarrow> rkey \<Rightarrow> rkey" where
  "map_at [] f k = f k"
| "map_at (n # ns) f (RKey l vs cs) =
     (case find_sub n cs of
        None \<Rightarrow> RKey l vs cs
      | Some c \<Rightarrow> RKey l vs (repl_sub n (map_at ns f c) cs))"

fun drop_child :: "string \<Rightarrow> rkey \<Rightarrow> rkey" where
  "drop_child n (RKey l vs cs) = RKey l vs (del_sub n cs)"

definition remove_at :: "keypath \<Rightarrow> rkey \<Rightarrow> rkey" where
  "remove_at p s = (if p = [] then s else map_at (butlast p) (drop_child (last p)) s)"

text \<open>
  \<open>ensure\<close> is what a successful \<open>CreateKey\<close> leaves: the missing keys of the path
  created, everything else unchanged. \<open>path_unlocked\<close> says that no existing key on
  the path is locked, which is when \<open>CreateKey\<close> succeeds. \<open>put_sub\<close> replaces the
  entry of a name by a new one (erase, then create).
\<close>

fun ensure :: "keypath \<Rightarrow> rkey \<Rightarrow> rkey" where
  "ensure [] k = k"
| "ensure (n # ns) (RKey l vs cs) =
     (case find_sub n cs of
        Some c \<Rightarrow> RKey l vs (repl_sub n (ensure ns c) cs)
      | None \<Rightarrow> RKey l vs (ins_sub n (new_keys ns) cs))"

fun path_unlocked :: "rkey \<Rightarrow> keypath \<Rightarrow> bool" where
  "path_unlocked k [] \<longleftrightarrow> \<not> locked k"
| "path_unlocked (RKey l vs cs) (n # ns) \<longleftrightarrow>
     (case find_sub n cs of Some c \<Rightarrow> path_unlocked c ns | None \<Rightarrow> \<not> l)"

definition put_sub :: "string \<Rightarrow> 'a \<Rightarrow> (string \<times> 'a) list \<Rightarrow> (string \<times> 'a) list" where
  "put_sub n d cs = ins_sub n d (del_sub n cs)"

fun put_child :: "string \<Rightarrow> rkey \<Rightarrow> rkey \<Rightarrow> rkey" where
  "put_child n d (RKey l vs cs) = RKey l vs (put_sub n d cs)"

text \<open>A sequence of \<open>put_sub\<close>s, left to right.\<close>

definition put_subs :: "(string \<times> 'a) list \<Rightarrow> (string \<times> 'a) list \<Rightarrow> (string \<times> 'a) list" where
  "put_subs L cs = fold (\<lambda>(n, d). put_sub n d) L cs"

text \<open>The subtree at a path exists only if no key of it is locked.\<close>

definition erasable :: "rkey \<Rightarrow> keypath \<Rightarrow> bool" where
  "erasable s p \<longleftrightarrow> (case lookup_key s p of None \<Rightarrow> True | Some t \<Rightarrow> unlocked t)"

subsection \<open>Named entries\<close>

text \<open>Evaluation of the adapter on concrete hives, for the witnesses.\<close>

lemmas reg_ops_defs [reg_simps] =
  reg_open_key_def reg_subkey_names_def reg_create_key_def reg_delete_key_def
  reg_set_value_def put_val_def

lemmas reg_names_eval [reg_simps] =
  same_name_def fold_name_def upcase_def less_char_def sorted_names_def valid_name_def
  backslash_def

text \<open>
  \<open>upcase\<close> on the bits of a character: a lower-case ASCII letter (\<open>0x61\<close> to
  \<open>0x7A\<close>) loses bit 5. This is the code equation the evaluation of concrete hives uses.
\<close>

lemma upcase_Char [code]:
  "upcase (Char b0 b1 b2 b3 b4 b5 b6 b7) =
     (if \<not> b7 \<and> b6 \<and> b5 \<and> (b0 \<or> b1 \<or> b2 \<or> b3 \<or> b4) \<and> \<not> (b4 \<and> b3 \<and> (b2 \<or> b1 \<and> b0))
      then Char b0 b1 b2 b3 b4 False b6 b7 else Char b0 b1 b2 b3 b4 b5 b6 b7)"
  by (cases b0; cases b1; cases b2; cases b3; cases b4; cases b5; cases b6; cases b7)
     (simp_all add: upcase_def less_eq_char_def char_of_def bit_0)

lemma same_name_refl [simp]: "same_name n n"
  by (simp add: same_name_def)

lemma find_sub_repl_sub:
  "find_sub n (repl_sub m d cs) =
     (if same_name n m \<and> find_sub m cs \<noteq> None then Some d else find_sub n cs)"
  by (induction cs) (auto simp: same_name_def)

lemma map_fst_repl_sub [simp]: "map fst (repl_sub n d cs) = map fst cs"
  by (induction cs) auto

lemma find_sub_in_set:
  "find_sub n cs = Some c \<Longrightarrow> \<exists>m. (m, c) \<in> set cs \<and> same_name n m"
  by (induction cs) (auto split: if_splits)

lemma find_sub_None_iff:
  "find_sub n cs = None \<longleftrightarrow> (\<forall>(m, c) \<in> set cs. \<not> same_name n m)"
  by (induction cs) (auto split: if_splits)

lemma sorted_names_Cons:
  "sorted_names ((m, c) # cs) \<longleftrightarrow>
     (\<forall>(m', c') \<in> set cs. fold_name m < fold_name m') \<and> sorted_names cs"
  by (auto simp: sorted_names_def)

lemma sorted_names_tail_no_same:
  assumes "sorted_names ((m, c) # cs)" and "same_name n m"
  shows "find_sub n cs = None"
proof (rule ccontr)
  assume "find_sub n cs \<noteq> None"
  then obtain x where "find_sub n cs = Some x" by auto
  then obtain m' where "(m', x) \<in> set cs" and "same_name n m'"
    by (blast dest: find_sub_in_set)
  with assms show False by (force simp: sorted_names_Cons same_name_def)
qed

lemma find_sub_del_sub:
  "sorted_names cs \<Longrightarrow>
     find_sub n (del_sub m cs) = (if same_name n m then None else find_sub n cs)"
proof (induction cs)
  case (Cons e cs)
  obtain m' c' where e: "e = (m', c')" by fastforce
  with Cons show ?case
    by (auto simp: sorted_names_Cons same_name_def find_sub_None_iff)
qed simp

lemma repl_sub_cases:
  "(m, c) \<in> set (repl_sub n d cs) \<Longrightarrow> (m, c) \<in> set cs \<or> (c = d \<and> same_name n m \<and> m \<in> fst ` set cs)"
  by (induction cs) (auto simp: same_name_def split: if_splits)

lemma del_sub_no_match:
  "\<forall>(m, c) \<in> set cs. \<not> same_name n m \<Longrightarrow> del_sub n cs = cs"
  by (induction cs) auto

lemma set_del_sub: "set (del_sub n cs) \<subseteq> set cs"
  by (induction cs) (auto split: if_splits)

lemma sorted_names_map_fst:
  "sorted_names cs \<longleftrightarrow> sorted_wrt (\<lambda>a b. fold_name a < fold_name b) (map fst cs)"
  by (simp add: sorted_names_def sorted_wrt_map)

lemma sorted_names_repl_sub [simp]: "sorted_names (repl_sub n d cs) \<longleftrightarrow> sorted_names cs"
  by (simp add: sorted_names_map_fst)

lemma sorted_names_del_sub: "sorted_names cs \<Longrightarrow> sorted_names (del_sub n cs)"
  by (induction cs) (auto simp: sorted_names_Cons dest!: set_del_sub [THEN subsetD])

lemma repl_sub_same: "find_sub n cs = Some c \<Longrightarrow> repl_sub n c cs = cs"
  by (induction cs) (auto split: if_splits)

lemma strict_prefix_butlast: "strict_prefix g p \<Longrightarrow> prefix g (butlast p)"
  by (auto simp: strict_prefix_def prefix_def butlast_append)

lemma repl_sub_repl_sub [simp]: "repl_sub n a (repl_sub n b cs) = repl_sub n a cs"
  by (induction cs) auto

lemma sum_repl_sub_le:
  "find_sub n cs = Some c \<Longrightarrow> ksize d \<le> ksize c \<Longrightarrow>
     sum_list (map (\<lambda>(m, c). ksize c) (repl_sub n d cs)) \<le> sum_list (map (\<lambda>(m, c). ksize c) cs)"
  by (induction cs) (auto split: if_splits)

lemma sum_del_sub_le:
  "sum_list (map (\<lambda>(m, c). ksize c) (del_sub n cs)) \<le> sum_list (map (\<lambda>(m, c). ksize c) cs)"
  by (induction cs) auto

subsection \<open>Lookup and update along paths\<close>

lemma lookup_key_append:
  "lookup_key s (p @ q) = (case lookup_key s p of None \<Rightarrow> None | Some k \<Rightarrow> lookup_key k q)"
proof (induction p arbitrary: s)
  case (Cons n p)
  then show ?case by (cases s) (simp split: option.split)
qed simp

lemma lookup_key_single: "lookup_key k [n] = find_sub n (subs k)"
  by (cases k) (simp split: option.split)

lemma lookup_key_snoc:
  "lookup_key s (p @ [n]) = (case lookup_key s p of None \<Rightarrow> None | Some k \<Rightarrow> find_sub n (subs k))"
  by (simp add: lookup_key_append lookup_key_single split: option.split)

lemma lookup_map_at:
  "lookup_key (map_at p f s) p = map_option f (lookup_key s p)"
proof (induction p arbitrary: s)
  case (Cons n p)
  then show ?case by (cases s) (auto simp: find_sub_repl_sub split: option.split)
qed simp

lemma map_at_append: "map_at (p @ q) f s = map_at p (map_at q f) s"
proof (induction p arbitrary: s)
  case (Cons n p)
  then show ?case by (cases s) (simp split: option.split)
qed simp

lemma map_at_map_at: "map_at p f (map_at p g s) = map_at p (f \<circ> g) s"
proof (induction p arbitrary: s)
  case (Cons n p)
  then show ?case by (cases s) (auto simp: find_sub_repl_sub split: option.split)
qed simp

lemma map_at_missing: "lookup_key s p = None \<Longrightarrow> map_at p f s = s"
proof (induction p arbitrary: s)
  case (Cons n p)
  then show ?case
    by (cases s) (auto split: option.splits intro: repl_sub_same)
qed simp

lemma map_at_const:
  "lookup_key s p = Some k \<Longrightarrow> map_at p (\<lambda>_. f k) s = map_at p f s"
proof (induction p arbitrary: s)
  case (Cons n p)
  then show ?case by (cases s) (auto split: option.splits)
qed simp

lemma at_key_eq:
  "at_key p f s =
     (case lookup_key s p of
        None \<Rightarrow> Inl (Errno ERROR_FILE_NOT_FOUND)
      | Some k \<Rightarrow> (case f k of Inl e \<Rightarrow> Inl e | Inr k' \<Rightarrow> Inr (map_at p (\<lambda>_. k') s)))"
proof (induction p arbitrary: s)
  case Nil
  then show ?case by (simp split: sum.split)
next
  case (Cons n p)
  then show ?case by (cases s) (simp split: option.split sum.split)
qed

lemma ksize_map_at_le:
  "(\<And>k. ksize (f k) \<le> ksize k) \<Longrightarrow> ksize (map_at p f s) \<le> ksize s"
proof (induction p arbitrary: s)
  case (Cons n p)
  show ?case
  proof (cases s)
    case (RKey l vs cs)
    show ?thesis
    proof (cases "find_sub n cs")
      case (Some c)
      with Cons have "ksize (map_at p f c) \<le> ksize c" by blast
      with Some RKey show ?thesis by (simp add: sum_repl_sub_le)
    qed (simp add: RKey)
  qed
qed simp

lemma size_at_map_at_prefix:
  assumes "\<And>k. ksize (f k) \<le> ksize k" and "prefix g p"
  shows "size_at (map_at p f s) g \<le> size_at s g"
proof -
  obtain q where p: "p = g @ q" using assms(2) by (auto simp: prefix_def)
  have "lookup_key (map_at p f s) g = map_option (map_at q f) (lookup_key s g)"
    by (simp add: p map_at_append lookup_map_at)
  then show ?thesis
    using ksize_map_at_le[of f q] assms(1) by (simp add: size_at_def split: option.split)
qed

lemma ksize_lookup_less:
  "lookup_key k q = Some c \<Longrightarrow> q \<noteq> [] \<Longrightarrow> ksize c < ksize k"
proof (induction q arbitrary: k)
  case (Cons n q)
  obtain l vs cs where k: "k = RKey l vs cs" by (cases k)
  with Cons.prems obtain d where d: "find_sub n cs = Some d" and c: "lookup_key d q = Some c"
    by (auto split: option.splits)
  from d obtain m where "(m, d) \<in> set cs" by (auto dest: find_sub_in_set)
  then have "ksize d < ksize k"
    using sum_list_map_pos_le[of m d cs ksize] by (simp add: k)
  moreover have "ksize c \<le> ksize d"
    using Cons.IH[OF c] by (cases q) (use c in auto)
  ultimately show ?case by simp
qed simp

subsection \<open>Deleting a key\<close>

lemma drop_child_ksize_le: "ksize (drop_child n k) \<le> ksize k"
  by (cases k) (simp add: sum_del_sub_le)

lemma del_child_Inr: "del_child n k = Inr k' \<Longrightarrow> k' = drop_child n k"
  by (cases k) (auto split: option.splits if_splits)

lemma reg_delete_key_Inr:
  assumes "reg_delete_key s p = Inr s'"
  shows "s' = remove_at p s"
proof -
  from assms have p: "p \<noteq> []" and
    a: "at_key (butlast p) (del_child (last p)) s = Inr s'"
    by (auto simp: reg_delete_key_def split: if_splits)
  from a obtain k k' where k: "lookup_key s (butlast p) = Some k"
    and k': "del_child (last p) k = Inr k'" and s': "s' = map_at (butlast p) (\<lambda>_. k') s"
    by (auto simp: at_key_eq split: option.splits sum.splits)
  from k' have "k' = drop_child (last p) k" by (rule del_child_Inr)
  with s' k p show ?thesis by (simp add: remove_at_def map_at_const)
qed

lemma size_at_remove_at:
  "strict_prefix g p \<Longrightarrow> size_at (remove_at p s) g \<le> size_at s g"
  by (auto simp: remove_at_def intro!: size_at_map_at_prefix drop_child_ksize_le
      strict_prefix_butlast)

lemma del_sub_repl_sub [simp]: "del_sub n (repl_sub n d cs) = del_sub n cs"
  by (induction cs) auto

lemma map_at_id: "map_at p id s = s"
proof (induction p arbitrary: s)
  case (Cons n p)
  then show ?case by (cases s) (auto split: option.split intro: repl_sub_same)
qed simp

lemma map_at_same: "lookup_key s p = Some k \<Longrightarrow> map_at p (\<lambda>_. k) s = s"
  using map_at_const[of s p k id] by (simp add: map_at_id)

lemma remove_at_map_at: "p \<noteq> [] \<Longrightarrow> remove_at p (map_at p f s) = remove_at p s"
proof (cases p rule: rev_cases)
  case (snoc q n)
  have "drop_child n \<circ> map_at [n] f = drop_child n"
  proof
    fix k show "(drop_child n \<circ> map_at [n] f) k = drop_child n k"
      by (cases k) (simp split: option.split)
  qed
  then show ?thesis
    by (simp add: snoc remove_at_def map_at_append map_at_map_at)
qed simp

lemma reg_delete_key_leaf:
  assumes "lookup_key s p = Some k" and "p \<noteq> []" and "\<not> locked k" and "subs k = []"
  shows "reg_delete_key s p = Inr (remove_at p s)"
proof -
  obtain q n where p: "p = q @ [n]" using assms(2) by (cases p rule: rev_cases) auto
  from assms(1) obtain par where par: "lookup_key s q = Some par" and k: "find_sub n (subs par) = Some k"
    by (auto simp: p lookup_key_snoc split: option.splits)
  have "del_child n par = Inr (drop_child n par)"
    using k assms(3,4) by (cases par) simp
  with par show ?thesis
    by (simp add: reg_delete_key_def p at_key_eq remove_at_def map_at_const)
qed

lemma reg_delete_key_missing:
  assumes "lookup_key s p = None" and "p \<noteq> []"
  shows "reg_delete_key s p = Inl (Errno ERROR_FILE_NOT_FOUND)"
proof -
  obtain q n where p: "p = q @ [n]" using assms(2) by (cases p rule: rev_cases) auto
  show ?thesis
  proof (cases "lookup_key s q")
    case (Some par)
    with assms(1) have "find_sub n (subs par) = None" by (simp add: p lookup_key_snoc)
    then have "del_child n par = Inl (Errno ERROR_FILE_NOT_FOUND)" by (cases par) simp
    with Some show ?thesis by (simp add: reg_delete_key_def p at_key_eq)
  qed (simp add: reg_delete_key_def p at_key_eq)
qed

subsection \<open>Well-formedness is kept\<close>

lemma wf_key_child:
  "wf_key (RKey l vs cs) \<Longrightarrow> find_sub n cs = Some c \<Longrightarrow> wf_key c"
  by (auto dest!: find_sub_in_set)

lemma wf_lookup_key: "wf_key s \<Longrightarrow> lookup_key s p = Some k \<Longrightarrow> wf_key k"
proof (induction p arbitrary: s)
  case (Cons n p)
  obtain l vs cs where s: "s = RKey l vs cs" by (cases s)
  with Cons.prems obtain c where c: "find_sub n cs = Some c" and k: "lookup_key c p = Some k"
    by (auto split: option.splits)
  from Cons.prems(1) s c have "wf_key c" by (blast intro: wf_key_child)
  from this k show ?case by (rule Cons.IH)
qed simp

lemma wf_key_RKey_repl:
  assumes "wf_key (RKey l vs cs)" and "find_sub n cs = Some c" and "wf_key d"
  shows "wf_key (RKey l vs (repl_sub n d cs))"
proof -
  have "valid_name m \<and> wf_key e" if me: "(m, e) \<in> set (repl_sub n d cs)" for m e
  proof (cases "(m, e) \<in> set cs")
    case True
    with assms(1) show ?thesis by auto
  next
    case False
    with repl_sub_cases[OF me] obtain x where "e = d" and "(m, x) \<in> set cs" by auto
    with assms(1,3) show ?thesis by auto
  qed
  then have "\<forall>(m, e) \<in> set (repl_sub n d cs). valid_name m \<and> wf_key e" by blast
  with assms(1) show ?thesis by simp
qed

lemma wf_map_at:
  "wf_key s \<Longrightarrow> (\<And>k. lookup_key s p = Some k \<Longrightarrow> wf_key (f k)) \<Longrightarrow> wf_key (map_at p f s)"
proof (induction p arbitrary: s)
  case (Cons n p)
  show ?case
  proof (cases s)
    case (RKey l vs cs)
    show ?thesis
    proof (cases "find_sub n cs")
      case (Some c)
      have "wf_key c" using Cons.prems(1) RKey Some by (blast intro: wf_key_child)
      then have wfd: "wf_key (map_at p f c)"
        using Cons.IH[of c] Cons.prems(2) RKey Some by simp
      have eq: "map_at (n # p) f s = RKey l vs (repl_sub n (map_at p f c) cs)"
        by (simp add: RKey Some)
      show ?thesis unfolding eq
        by (rule wf_key_RKey_repl) (use Cons.prems(1) RKey Some wfd in auto)
    qed (use Cons.prems RKey in simp)
  qed
qed simp

lemma wf_drop_child: "wf_key k \<Longrightarrow> wf_key (drop_child n k)"
  by (cases k) (auto simp: sorted_names_del_sub dest!: set_del_sub [THEN subsetD])

lemma wf_remove_at: "wf_key s \<Longrightarrow> wf_key (remove_at p s)"
  by (auto simp: remove_at_def intro!: wf_map_at wf_drop_child dest: wf_lookup_key)

lemma unlocked_child:
  "unlocked (RKey l vs cs) \<Longrightarrow> find_sub n cs = Some c \<Longrightarrow> unlocked c"
  by (auto dest!: find_sub_in_set)

lemma unlocked_lookup_key: "unlocked k \<Longrightarrow> lookup_key k q = Some c \<Longrightarrow> unlocked c"
proof (induction q arbitrary: k)
  case (Cons n q)
  obtain l vs cs where k: "k = RKey l vs cs" by (cases k)
  with Cons.prems obtain d where d: "find_sub n cs = Some d" and c: "lookup_key d q = Some c"
    by (auto split: option.splits)
  from Cons.prems(1) k d have "unlocked d" by (blast intro: unlocked_child)
  from this c show ?case by (rule Cons.IH)
qed simp

lemma size_at_le_ksize: "size_at s p \<le> ksize s"
  by (cases "p = []") (auto simp: size_at_def split: option.split dest: ksize_lookup_less)

subsection \<open>Creating keys\<close>

lemma create_at_ensure: "path_unlocked s p \<Longrightarrow> create_at p s = Inr (ensure p s)"
proof (induction p arbitrary: s)
  case (Cons n p)
  then show ?case by (cases s) (auto split: option.splits)
qed simp

lemma create_at_locked:
  "\<not> path_unlocked s p \<Longrightarrow> create_at p s = Inl (Errno ERROR_ACCESS_DENIED)"
proof (induction p arbitrary: s)
  case (Cons n p)
  then show ?case by (cases s) (auto split: option.splits)
qed simp

lemma ensure_existing: "lookup_key s p \<noteq> None \<Longrightarrow> ensure p s = s"
proof (induction p arbitrary: s)
  case (Cons n p)
  then show ?case by (cases s) (auto split: option.splits intro: repl_sub_same)
qed simp

lemma lookup_new_keys: "lookup_key (new_keys p) p = Some (RKey False [] [])"
  by (induction p) auto

lemma find_sub_ins_sub:
  "find_sub m cs = None \<Longrightarrow>
     find_sub n (ins_sub m d cs) = (if same_name n m then Some d else find_sub n cs)"
  by (induction cs) (auto simp: same_name_def)

lemma lookup_ensure:
  "lookup_key (ensure p s) p = Some (case lookup_key s p of Some k \<Rightarrow> k | None \<Rightarrow> RKey False [] [])"
proof (induction p arbitrary: s)
  case (Cons n p)
  then show ?case
    by (cases s) (auto simp: find_sub_repl_sub find_sub_ins_sub lookup_new_keys split: option.split)
qed simp

lemma set_ins_sub [simp]: "set (ins_sub n d cs) = insert (n, d) (set cs)"
  by (induction cs) (auto split: if_splits)

lemma sorted_names_ins_sub:
  "sorted_names cs \<Longrightarrow> find_sub n cs = None \<Longrightarrow> sorted_names (ins_sub n d cs)"
proof (induction cs)
  case (Cons e cs)
  obtain m c where e: "e = (m, c)" by fastforce
  have ne: "fold_name n \<noteq> fold_name m" and none: "find_sub n cs = None"
    using Cons.prems(2) e by (auto simp: same_name_def split: if_splits)
  have all: "\<forall>(m', c') \<in> set cs. fold_name m < fold_name m'" and srt: "sorted_names cs"
    using Cons.prems(1) e by (auto simp: sorted_names_Cons)
  show ?case
  proof (cases "fold_name n < fold_name m")
    case True
    have "\<forall>(m', c') \<in> set ((m, c) # cs). fold_name n < fold_name m'"
      using all True by (auto intro: order.strict_trans)
    with Cons.prems(1) e True show ?thesis by (simp add: sorted_names_Cons del: set_ins_sub)
  next
    case False
    with ne have "fold_name m < fold_name n" using neq_iff by blast
    with all Cons.IH[OF srt none] e False show ?thesis by (simp add: sorted_names_Cons)
  qed
qed (simp add: sorted_names_def)

lemma repl_sub_ins_sub:
  "find_sub m cs = None \<Longrightarrow> repl_sub m d' (ins_sub m d cs) = ins_sub m d' cs"
  by (induction cs) (auto split: if_splits)

lemma ensure_snoc: "ensure (p @ [n]) s = map_at p (ensure [n]) (ensure p s)"
proof (induction p arbitrary: s)
  case Nil
  then show ?case by simp
next
  case (Cons m p)
  obtain l vs cs where s: "s = RKey l vs cs" by (cases s)
  show ?case
  proof (cases "find_sub m cs")
    case None
    have nk: "map_at p (ensure [n]) (new_keys p) = new_keys (p @ [n])"
      by (induction p) auto
    with None s show ?thesis
      by (simp add: find_sub_ins_sub repl_sub_ins_sub)
  next
    case (Some c)
    with Cons s show ?thesis by (simp add: find_sub_repl_sub)
  qed
qed

lemma remove_at_missing: "lookup_key s p = None \<Longrightarrow> remove_at p s = s"
proof (cases p rule: rev_cases)
  case (snoc q n)
  assume none: "lookup_key s p = None"
  show ?thesis
  proof (cases "lookup_key s q")
    case (Some k)
    with none have "find_sub n (subs k) = None" by (simp add: snoc lookup_key_snoc)
    then have dk: "drop_child n k = k"
      by (cases k) (simp add: find_sub_None_iff del_sub_no_match)
    have "map_at q (drop_child n) s = map_at q (\<lambda>_. drop_child n k) s"
      using map_at_const[OF Some, of "drop_child n"] by simp
    also have "\<dots> = s" using dk Some by (simp add: map_at_same)
    finally show ?thesis by (simp add: snoc remove_at_def)
  qed (simp add: snoc remove_at_def map_at_missing)
qed (simp add: remove_at_def)

lemma map_at_cong_at:
  "lookup_key s p = Some k \<Longrightarrow> f k = g k \<Longrightarrow> map_at p f s = map_at p g s"
  using map_at_const[of s p k f] map_at_const[of s p k g] by simp

lemma put_child_fresh: "put_child n d (RKey False [] []) = RKey False [] [(n, d)]"
  by (simp add: put_sub_def)

lemma ensure_drop_child:
  "sorted_names (subs k) \<Longrightarrow> ensure [n] (drop_child n k) = put_child n (RKey False [] []) k"
  by (cases k) (simp add: find_sub_del_sub put_sub_def)

lemma ensure_remove_at:
  assumes "wf_key s"
  shows "ensure (p @ [n]) (remove_at (p @ [n]) s) = map_at p (put_child n (RKey False [] [])) (ensure p s)"
proof (cases "lookup_key s p")
  case None
  have rm: "remove_at (p @ [n]) s = s" using None by (simp add: remove_at_def map_at_missing)
  have l: "lookup_key (ensure p s) p = Some (RKey False [] [])" using None by (simp add: lookup_ensure)
  have e: "ensure [n] (RKey False [] []) = put_child n (RKey False [] []) (RKey False [] [])"
    by (simp add: put_sub_def)
  have "ensure (p @ [n]) s = map_at p (ensure [n]) (ensure p s)" by (rule ensure_snoc)
  also have "\<dots> = map_at p (put_child n (RKey False [] [])) (ensure p s)"
    using l e by (rule map_at_cong_at)
  finally show ?thesis using rm by simp
next
  case (Some k)
  have srt: "sorted_names (subs k)" using wf_lookup_key[OF assms Some] by (cases k) simp
  have x: "lookup_key (map_at p (drop_child n) s) p \<noteq> None"
    using Some by (simp add: lookup_map_at)
  have "ensure (p @ [n]) (remove_at (p @ [n]) s) = map_at p (ensure [n]) (map_at p (drop_child n) s)"
    using x by (simp add: remove_at_def ensure_snoc ensure_existing)
  also have "\<dots> = map_at p (ensure [n] \<circ> drop_child n) s" by (rule map_at_map_at)
  also have "\<dots> = map_at p (put_child n (RKey False [] [])) s"
    using Some by (rule map_at_cong_at) (simp add: ensure_drop_child srt)
  finally show ?thesis using Some by (simp add: ensure_existing)
qed

lemma put_child_replace:
  "sorted_names (subs k) \<Longrightarrow> map_at [n] (\<lambda>_. d') (put_child n d k) = put_child n d' k"
  by (cases k) (simp add: put_sub_def find_sub_ins_sub find_sub_del_sub repl_sub_ins_sub)

lemma reg_set_value_ok:
  "lookup_key s p \<noteq> None \<Longrightarrow> reg_set_value s p n v = Inr (map_at p (set_val n v) s)"
  by (auto simp: reg_set_value_def at_key_eq map_at_const)

lemma reg_create_key_ok: "path_unlocked s p \<Longrightarrow> reg_create_key s p = Inr (ensure p s)"
  by (simp add: reg_create_key_def create_at_ensure)

subsection \<open>Well-formedness of created keys\<close>

lemma wf_new_keys: "\<forall>n \<in> set p. valid_name n \<Longrightarrow> wf_key (new_keys p)"
  by (induction p) (auto simp: sorted_names_def)

lemma wf_ensure: "wf_key s \<Longrightarrow> \<forall>n \<in> set p. valid_name n \<Longrightarrow> wf_key (ensure p s)"
proof (induction p arbitrary: s)
  case (Cons n p)
  obtain l vs cs where s: "s = RKey l vs cs" by (cases s)
  show ?case
  proof (cases "find_sub n cs")
    case None
    have "sorted_names (ins_sub n (new_keys p) cs)"
      using Cons.prems(1) s None by (simp add: sorted_names_ins_sub)
    moreover have "wf_key (new_keys p)" using Cons.prems(2) by (simp add: wf_new_keys)
    ultimately show ?thesis using Cons.prems s None by auto
  next
    case (Some c)
    have "wf_key c" using Cons.prems(1) s Some by (blast intro: wf_key_child)
    then have "wf_key (ensure p c)" using Cons.IH Cons.prems(2) by simp
    then show ?thesis
      using Cons.prems(1) s Some by (simp del: wf_key.simps add: wf_key_RKey_repl)
  qed
qed simp

lemma wf_put_child:
  assumes "wf_key k" and "valid_name n" and "wf_key d"
  shows "wf_key (put_child n d k)"
proof (cases k)
  case (RKey l vs cs)
  have "sorted_names (put_sub n d cs)"
    using assms(1) RKey by (simp add: put_sub_def sorted_names_ins_sub sorted_names_del_sub find_sub_del_sub)
  moreover have "\<forall>(m, c) \<in> set (put_sub n d cs). valid_name m \<and> wf_key c"
    using assms RKey by (auto simp: put_sub_def dest!: set_del_sub [THEN subsetD])
  ultimately show ?thesis using assms(1) RKey by simp
qed

lemma distinct_put_val:
  "distinct (map (fold_name \<circ> fst) vs) \<Longrightarrow> distinct (map (fold_name \<circ> fst) (put_val n v vs))"
proof -
  have "map (fold_name \<circ> fst) (repl_sub n v vs) = map (fold_name \<circ> fst) vs"
    by (induction vs) auto
  moreover have "find_sub n vs = None \<Longrightarrow> fold_name n \<notin> (fold_name \<circ> fst) ` set vs"
    by (auto simp: find_sub_None_iff same_name_def)
  moreover assume "distinct (map (fold_name \<circ> fst) vs)"
  ultimately show ?thesis by (auto simp: put_val_def split: option.split)
qed

lemma wf_set_val: "wf_key k \<Longrightarrow> wf_key (set_val n v k)"
  by (cases k) (simp add: distinct_put_val)

subsection \<open>Locks along a path\<close>

lemma path_unlocked_existing:
  "lookup_key s p = Some k \<Longrightarrow> path_unlocked s p \<longleftrightarrow> \<not> locked k"
proof (induction p arbitrary: s)
  case (Cons n p)
  then show ?case by (cases s) (auto split: option.splits)
qed simp

lemma path_unlocked_snoc:
  "path_unlocked s p \<Longrightarrow> lookup_key s (p @ [n]) = None \<Longrightarrow> path_unlocked s (p @ [n])"
proof (induction p arbitrary: s)
  case Nil
  then show ?case by (cases s) (auto split: option.splits)
next
  case (Cons m p)
  then show ?case by (cases s) (auto split: option.splits)
qed

lemma path_unlocked_ensure: "path_unlocked s p \<Longrightarrow> path_unlocked (ensure p s) p"
proof (cases "lookup_key s p")
  case None
  then show ?thesis by (simp add: path_unlocked_existing[OF lookup_ensure [of p s, unfolded None, simplified]])
qed (simp add: ensure_existing)


subsection \<open>A freshly put child\<close>

text \<open>
  The synchronizer builds an entry's subtree in place: the hive has the shape
  \<open>map_at P (put_child i X) y\<close> and every later operation on a path through
  \<open>P @ [i]\<close> changes only \<open>X\<close>.
\<close>

lemma find_sub_put_sub:
  "sorted_names cs \<Longrightarrow> find_sub n (put_sub i d cs) = (if same_name n i then Some d else find_sub n cs)"
  by (simp add: put_sub_def find_sub_ins_sub find_sub_del_sub)

lemma put_child_map_at:
  "sorted_names (subs k) \<Longrightarrow> map_at (i # q) g (put_child i X k) = put_child i (map_at q g X) k"
  by (cases k) (simp add: put_sub_def find_sub_ins_sub find_sub_del_sub repl_sub_ins_sub)

lemma path_unlocked_append:
  "lookup_key s p = Some k \<Longrightarrow> path_unlocked s (p @ q) = path_unlocked k q"
proof (induction p arbitrary: s)
  case (Cons n p)
  then show ?case by (cases s) (auto split: option.splits)
qed simp

lemma ensure_append:
  "lookup_key s p \<noteq> None \<Longrightarrow> ensure (p @ q) s = map_at p (ensure q) s"
proof (induction p arbitrary: s)
  case (Cons n p)
  then show ?case by (cases s) (auto split: option.splits)
qed simp

lemma lookup_slot:
  assumes "lookup_key y P = Some k" and "sorted_names (subs k)"
  shows "lookup_key (map_at P (put_child i X) y) (P @ i # q) = lookup_key X q"
proof -
  have "lookup_key (put_child i X k) (i # q) = lookup_key X q"
    using assms(2) by (cases k) (simp add: find_sub_put_sub)
  then show ?thesis using assms(1) by (simp add: lookup_key_append lookup_map_at)
qed

lemma map_at_slot:
  assumes "lookup_key y P = Some k" and "sorted_names (subs k)"
  shows "map_at (P @ i # q) g (map_at P (put_child i X) y) = map_at P (put_child i (map_at q g X)) y"
proof -
  have "map_at (P @ i # q) g (map_at P (put_child i X) y) = map_at P (map_at (i # q) g \<circ> put_child i X) y"
    by (simp add: map_at_append map_at_map_at)
  also have "\<dots> = map_at P (put_child i (map_at q g X)) y"
    using assms(1) by (rule map_at_cong_at) (simp add: put_child_map_at assms(2))
  finally show ?thesis .
qed

lemma ensure_slot:
  assumes "lookup_key y P = Some k" and "sorted_names (subs k)"
  shows "ensure (P @ i # q) (map_at P (put_child i X) y) = map_at P (put_child i (ensure q X)) y"
proof -
  have l: "lookup_key (map_at P (put_child i X) y) (P @ [i]) = Some X"
    using lookup_slot[OF assms, of i X "[]"] by simp
  have "ensure (P @ i # q) (map_at P (put_child i X) y) = map_at (P @ [i]) (ensure q) (map_at P (put_child i X) y)"
    using ensure_append[of _ "P @ [i]" q] l by simp
  also have "\<dots> = map_at P (put_child i (ensure q X)) y"
    using map_at_slot[OF assms, of i "[]" "ensure q" X] by simp
  finally show ?thesis .
qed

lemma path_unlocked_slot:
  assumes "lookup_key y P = Some k" and "sorted_names (subs k)"
  shows "path_unlocked (map_at P (put_child i X) y) (P @ i # q) = path_unlocked X q"
proof -
  have l: "lookup_key (map_at P (put_child i X) y) (P @ [i]) = Some X"
    using lookup_slot[OF assms, of i X "[]"] by simp
  show ?thesis using path_unlocked_append[OF l, of q] by simp
qed

subsection \<open>The algebra of replacing entries\<close>

text \<open>
  Putting entries of different names commutes and a later put of a name overrides an
  earlier one; so a sequence of puts is idempotent, and its order does not matter when
  the names are distinct up to case.
\<close>

lemma del_sub_cong: "same_name n m \<Longrightarrow> del_sub n cs = del_sub m cs"
  by (induction cs) (auto simp: same_name_def)

lemma del_sub_ins_sub_other:
  "sorted_names cs \<Longrightarrow> \<not> same_name n m \<Longrightarrow> del_sub n (ins_sub m e cs) = ins_sub m e (del_sub n cs)"
proof (induction cs)
  case (Cons x cs)
  obtain k c where x: "x = (k, c)" by fastforce
  have all: "\<forall>(k', c') \<in> set cs. fold_name k < fold_name k'" and srt: "sorted_names cs"
    using Cons.prems(1) x by (auto simp: sorted_names_Cons)
  show ?case
  proof (cases "fold_name m < fold_name k")
    case True
    show ?thesis
    proof (cases "same_name n k")
      case sk: True
      have "ins_sub m e cs = (m, e) # cs"
      proof (cases cs)
        case (Cons y ys)
        obtain k' c' where y: "y = (k', c')" by fastforce
        have "fold_name m < fold_name k'" using all Cons y True by (auto intro: order.strict_trans)
        then show ?thesis using Cons y by simp
      qed simp
      then show ?thesis using True sk x Cons.prems(2) by simp
    qed (use True x Cons.prems(2) in simp)
  qed (use x Cons.IH[OF srt Cons.prems(2)] in simp)
qed simp

lemma del_sub_del_sub: "del_sub n (del_sub m cs) = del_sub m (del_sub n cs)"
proof (induction cs)
  case (Cons x cs)
  obtain k c where x: "x = (k, c)" by fastforce
  show ?case
  proof (cases "same_name n k \<and> same_name m k")
    case True
    then have "same_name n m" by (simp add: same_name_def)
    then show ?thesis using True x by (simp add: del_sub_cong)
  qed (use x Cons.IH in auto)
qed simp

lemma ins_sub_ins_sub:
  "fold_name n \<noteq> fold_name m \<Longrightarrow> ins_sub n d (ins_sub m e cs) = ins_sub m e (ins_sub n d cs)"
proof (induction cs)
  case Nil
  then show ?case using neq_iff by fastforce
next
  case (Cons x cs)
  obtain k c where x: "x = (k, c)" by fastforce
  show ?case using Cons x neq_iff by (auto dest: order.strict_trans)
qed

lemma del_sub_ins_sub_same:
  "find_sub m cs = None \<Longrightarrow> same_name n m \<Longrightarrow> del_sub n (ins_sub m e cs) = cs"
proof (induction cs)
  case (Cons x cs)
  obtain k c where x: "x = (k, c)" by fastforce
  have "\<not> same_name n k" using Cons.prems x by (auto simp: same_name_def split: if_splits)
  then show ?case using Cons x by (auto split: if_splits)
qed simp

lemma put_sub_absorb:
  "sorted_names cs \<Longrightarrow> same_name n m \<Longrightarrow> put_sub n d (put_sub m e cs) = put_sub n d cs"
  by (simp add: put_sub_def del_sub_ins_sub_same find_sub_del_sub del_sub_cong[of n m])

lemma put_sub_commute:
  assumes "sorted_names cs" and "\<not> same_name n m"
  shows "put_sub n d (put_sub m e cs) = put_sub m e (put_sub n d cs)"
proof -
  have nm: "\<not> same_name m n" and ne: "fold_name n \<noteq> fold_name m"
    using assms(2) by (auto simp: same_name_def)
  have "put_sub n d (put_sub m e cs) = ins_sub n d (ins_sub m e (del_sub n (del_sub m cs)))"
    using assms by (simp add: put_sub_def del_sub_ins_sub_other sorted_names_del_sub)
  also have "\<dots> = ins_sub m e (ins_sub n d (del_sub m (del_sub n cs)))"
    using ne by (simp add: ins_sub_ins_sub del_sub_del_sub)
  also have "\<dots> = put_sub m e (put_sub n d cs)"
    using assms(1) nm by (simp add: put_sub_def del_sub_ins_sub_other sorted_names_del_sub)
  finally show ?thesis .
qed


lemma sorted_names_put_sub: "sorted_names cs \<Longrightarrow> sorted_names (put_sub n d cs)"
  by (simp add: put_sub_def sorted_names_ins_sub sorted_names_del_sub find_sub_del_sub)

lemma sorted_names_put_subs: "sorted_names cs \<Longrightarrow> sorted_names (put_subs L cs)"
  by (induction L arbitrary: cs) (auto simp: put_subs_def sorted_names_put_sub)

lemma put_subs_Cons: "put_subs ((n, d) # L) cs = put_subs L (put_sub n d cs)"
  by (simp add: put_subs_def)

lemma put_subs_snoc: "put_subs (L @ [(n, d)]) cs = put_sub n d (put_subs L cs)"
  by (simp add: put_subs_def)

text \<open>A put that a later put of the same name overrides does not matter.\<close>

lemma put_subs_shadow:
  "sorted_names cs \<Longrightarrow> put_sub n d (put_subs L (put_sub n d cs)) = put_sub n d (put_subs L cs)"
proof (induction L arbitrary: cs)
  case Nil
  then show ?case by (simp add: put_subs_def put_sub_absorb)
next
  case (Cons b L)
  obtain m e where b: "b = (m, e)" by fastforce
  show ?case
  proof (cases "same_name m n")
    case True
    then show ?thesis using Cons.prems b by (simp add: put_subs_Cons put_sub_absorb)
  next
    case False
    have "put_sub m e (put_sub n d cs) = put_sub n d (put_sub m e cs)"
      using Cons.prems False by (rule put_sub_commute)
    then show ?thesis
      using Cons.IH[of "put_sub m e cs"] Cons.prems b by (simp add: put_subs_Cons sorted_names_put_sub)
  qed
qed

lemma put_subs_idem: "sorted_names cs \<Longrightarrow> put_subs L (put_subs L cs) = put_subs L cs"
proof (induction L rule: rev_induct)
  case (snoc b L)
  obtain n d where b: "b = (n, d)" by fastforce
  have "put_subs (L @ [b]) (put_subs (L @ [b]) cs) = put_sub n d (put_subs L (put_subs L cs))"
    using snoc.prems b by (simp add: put_subs_snoc put_subs_shadow sorted_names_put_subs)
  then show ?case using snoc b by (simp add: put_subs_snoc)
qed (simp add: put_subs_def)

lemma put_sub_put_subs_commute:
  "sorted_names cs \<Longrightarrow> \<forall>(m, e) \<in> set L. \<not> same_name n m \<Longrightarrow>
   put_sub n d (put_subs L cs) = put_subs L (put_sub n d cs)"
proof (induction L arbitrary: cs)
  case (Cons b L)
  obtain m e where b: "b = (m, e)" by fastforce
  have "put_sub n d (put_sub m e cs) = put_sub m e (put_sub n d cs)"
    using Cons.prems b by (simp add: put_sub_commute)
  then show ?case
    using Cons.IH[of "put_sub m e cs"] Cons.prems b by (simp add: put_subs_Cons sorted_names_put_sub)
qed (simp add: put_subs_def)

lemma put_subs_perm:
  "mset L = mset L' \<Longrightarrow> distinct (map (fold_name \<circ> fst) L) \<Longrightarrow> sorted_names cs \<Longrightarrow>
   put_subs L cs = put_subs L' cs"
proof (induction L arbitrary: L' cs)
  case Nil
  then have "L' = []" by (cases L') simp_all
  then show ?case by simp
next
  case (Cons b L)
  obtain n d where b: "b = (n, d)" by fastforce
  have "b \<in> set L'" using Cons.prems(1) by (metis list.set_intros(1) set_mset_mset)
  then obtain L2 L3 where L': "L' = L2 @ b # L3" by (meson split_list)
  have ms: "mset L = mset (L2 @ L3)" using Cons.prems(1) L' by simp
  have "distinct (map (fold_name \<circ> fst) L')"
    using Cons.prems(1,2) by (metis mset_eq_imp_distinct_iff mset_map)
  then have "\<forall>(m, e) \<in> set L2. \<not> same_name n m"
    using L' b by (force simp: same_name_def)
  then have "put_subs L' cs = put_subs (L2 @ L3) (put_sub n d cs)"
    using Cons.prems(3) L' b
    by (simp add: put_subs_def put_sub_put_subs_commute[unfolded put_subs_def])
  moreover have "put_subs L (put_sub n d cs) = put_subs (L2 @ L3) (put_sub n d cs)"
    using Cons.IH[OF ms] Cons.prems(2,3) by (simp add: sorted_names_put_sub)
  ultimately show ?case using b by (simp add: put_subs_Cons)
qed

subsection \<open>The adapter keeps the hive well-formed\<close>

lemma wf_reg_create_key:
  "wf_key s \<Longrightarrow> \<forall>n \<in> set p. valid_name n \<Longrightarrow> reg_create_key s p = Inr s' \<Longrightarrow> wf_key s'"
  by (cases "path_unlocked s p") (auto simp: reg_create_key_def create_at_ensure create_at_locked wf_ensure)

lemma wf_reg_set_value: "wf_key s \<Longrightarrow> reg_set_value s p n v = Inr s' \<Longrightarrow> wf_key s'"
  by (cases "lookup_key s p")
     (auto simp: reg_set_value_ok wf_set_val intro!: wf_map_at dest: wf_lookup_key, simp add: reg_set_value_def)

lemma wf_reg_delete_key: "wf_key s \<Longrightarrow> reg_delete_key s p = Inr s' \<Longrightarrow> wf_key s'"
  by (auto dest: reg_delete_key_Inr intro: wf_remove_at)

end
