(* ===== verification/Eraser.thy ===== *)
theory Eraser
  imports Registry
begin

text \<open>
  The recursive subtree eraser, \<open>deleteRegKeyRecursive\<close> (src/main.go, lines 243-282):
  open the key (a missing key is success), read its subkey names, erase each subkey
  relative to the opened handle, then delete the key itself (a missing key is again
  success); every other failure is wrapped with the path and returned at once.
  \<open>erase\<close> is the function and \<open>erase_subkeys\<close> its loop over the subkeys. The
  recursion of the source follows the keys of the hive, which is finite; the model
  carries a fuel argument that bounds the depth of the recursion, and
  \<open>deleteRegKeyRecursive\<close> supplies one more unit than the hive has keys, which the
  lemmas below show is always enough.
\<close>

fun erase :: "nat \<Rightarrow> rkey \<Rightarrow> keypath \<Rightarrow> string \<Rightarrow> (rkey \<times> error option) option"
and erase_subkeys :: "nat \<Rightarrow> rkey \<Rightarrow> keypath \<Rightarrow> string \<Rightarrow> string list \<Rightarrow> (rkey \<times> error option) option"
where
  "erase 0 s k path = None"
| "erase (Suc n) s k path =
     (let p = k @ split_path path in
      case reg_open_key s p of
        Inl e \<Rightarrow> if is_enoent e then Some (s, None) else Some (s, Some (EDelOpen path e))
      | Inr h \<Rightarrow>
          (case reg_subkey_names s h of
             Inl e \<Rightarrow> Some (s, Some (EDelSubkeys path e))
           | Inr names \<Rightarrow>
               (case erase_subkeys n s h path names of
                  None \<Rightarrow> None
                | Some (s', Some e) \<Rightarrow> Some (s', Some e)
                | Some (s', None) \<Rightarrow>
                    (case reg_delete_key s' p of
                       Inl e \<Rightarrow> if is_enoent e then Some (s', None)
                               else Some (s', Some (EDelDelete path e))
                     | Inr s'' \<Rightarrow> Some (s'', None)))))"
| "erase_subkeys n s h path [] = Some (s, None)"
| "erase_subkeys n s h path (c # cs) =
     (case erase n s h c of
        None \<Rightarrow> None
      | Some (s', Some e) \<Rightarrow> Some (s', Some (EDelSubkey c path e))
      | Some (s', None) \<Rightarrow> erase_subkeys n s' h path cs)"

definition deleteRegKeyRecursive :: "rkey \<Rightarrow> keypath \<Rightarrow> string \<Rightarrow> (rkey \<times> error option) option" where
  "deleteRegKeyRecursive s k path = erase (Suc (ksize s)) s k path"

subsection \<open>Erasing never grows the keys above the erased one\<close>

lemma erase_size_mono:
  shows "erase n s k path = Some r \<Longrightarrow> strict_prefix g (k @ split_path path) \<Longrightarrow>
           size_at (fst r) g \<le> size_at s g"
    and "erase_subkeys n s h path cs = Some r \<Longrightarrow> prefix g h \<Longrightarrow>
           size_at (fst r) g \<le> size_at s g"
proof (induction n s k path and n s h path cs arbitrary: r g and r g rule: erase_erase_subkeys.induct)
  case (2 n s k path)
  let ?p = "k @ split_path path"
  show ?case
  proof (cases "reg_open_key s ?p")
    case (Inr h)
    then have h: "h = ?p" by (auto simp: reg_open_key_def split: option.splits if_splits)
    show ?thesis
    proof (cases "reg_subkey_names s h")
      case (Inr names)
      from "2.prems" Inr \<open>reg_open_key s ?p = Inr h\<close> obtain r1 where
        r1: "erase_subkeys n s h path names = Some r1"
        by (auto simp: Let_def split: option.splits)
      have pre: "prefix g h" using "2.prems"(2) h by (simp add: strict_prefix_def)
      have le1: "size_at (fst r1) g \<le> size_at s g"
        using "2.IH"[OF refl \<open>reg_open_key s ?p = Inr h\<close> Inr r1 pre] .
      show ?thesis
      proof (cases "snd r1 = None \<and> (\<exists>s2. reg_delete_key (fst r1) ?p = Inr s2)")
        case True
        then obtain s2 where s2: "reg_delete_key (fst r1) ?p = Inr s2" by blast
        with True "2.prems"(1) Inr \<open>reg_open_key s ?p = Inr h\<close> r1 have "fst r = s2"
          by (cases r1) (auto simp: Let_def)
        moreover have "size_at s2 g \<le> size_at (fst r1) g"
          using s2 "2.prems"(2) by (auto dest!: reg_delete_key_Inr intro: size_at_remove_at)
        ultimately show ?thesis using le1 by simp
      next
        case False
        with "2.prems"(1) Inr \<open>reg_open_key s ?p = Inr h\<close> r1 have "fst r = fst r1"
          by (cases r1) (auto simp: Let_def split: option.splits sum.splits if_splits)
        with le1 show ?thesis by simp
      qed
    qed (use "2.prems"(1) \<open>reg_open_key s ?p = Inr h\<close> in \<open>auto simp: Let_def\<close>)
  qed (use "2.prems"(1) in \<open>auto simp: Let_def split: if_splits\<close>)
next
  case (4 n s h path c cs)
  obtain r1 where r1: "erase n s h c = Some r1"
    using "4.prems"(1) by (auto split: option.splits)
  have sp: "strict_prefix g (h @ split_path c)"
    using "4.prems"(2) by (auto simp: strict_prefix_def prefix_def)
  have le1: "size_at (fst r1) g \<le> size_at s g" using "4.IH"(1)[OF r1 sp] .
  show ?case
  proof (cases "snd r1")
    case None
    then obtain s1 where r1eq: "r1 = (s1, None)" by (cases r1) simp
    with "4.prems"(1) r1 have "erase_subkeys n s1 h path cs = Some r" by simp
    from "4.IH"(2)[OF r1 r1eq [symmetric] refl this "4.prems"(2)] le1 r1eq
    show ?thesis by simp
  next
    case (Some e)
    with "4.prems"(1) r1 have "fst r = fst r1" by (cases r1) auto
    with le1 show ?thesis by simp
  qed
qed auto

lemma ksize_pos: "0 < ksize k"
  by (cases k) simp

lemma size_at_append_less:
  assumes "q \<noteq> []" and "size_at s h \<le> n" and "0 < n"
  shows "size_at s (h @ q) < n"
proof (cases "lookup_key s (h @ q)")
  case (Some c)
  then obtain k where k: "lookup_key s h = Some k" and c: "lookup_key k q = Some c"
    by (auto simp: lookup_key_append split: option.splits)
  from c assms(1) have "ksize c < ksize k" by (rule ksize_lookup_less)
  with k Some assms(2) show ?thesis by (simp add: size_at_def)
qed (simp add: size_at_def assms(3))

lemma reg_open_key_Inr: "reg_open_key s p = Inr h \<Longrightarrow> h = p \<and> (\<exists>k. lookup_key s p = Some k)"
  by (auto simp: reg_open_key_def split: option.splits if_splits)

subsection \<open>Enough fuel\<close>

lemma erase_fuel_enough:
  shows "size_at s (k @ split_path path) < n \<Longrightarrow> erase n s k path \<noteq> None"
    and "size_at s h \<le> n \<Longrightarrow> 0 < n \<Longrightarrow> erase_subkeys n s h path cs \<noteq> None"
proof (induction n s k path and n s h path cs rule: erase_erase_subkeys.induct)
  case (2 n s k path)
  let ?p = "k @ split_path path"
  show ?case
  proof (cases "reg_open_key s ?p")
    case (Inr h)
    with reg_open_key_Inr obtain t where h: "h = ?p" and t: "lookup_key s ?p = Some t" by blast
    show ?thesis
    proof (cases "reg_subkey_names s h")
      case (Inr names)
      have "size_at s h \<le> n" and "0 < n"
        using "2.prems" t h ksize_pos[of t] by (auto simp: size_at_def)
      then have "erase_subkeys n s h path names \<noteq> None"
        using "2.IH"[OF refl \<open>reg_open_key s ?p = Inr h\<close> Inr] by blast
      with \<open>reg_open_key s ?p = Inr h\<close> Inr show ?thesis
        by (auto simp: Let_def split: option.split prod.split sum.split)
    qed (use \<open>reg_open_key s ?p = Inr h\<close> in \<open>simp add: Let_def\<close>)
  qed (simp add: Let_def)
next
  case (4 n s h path c cs)
  have "size_at s (h @ split_path c) < n"
    using "4.prems" by (intro size_at_append_less) simp_all
  then obtain r1 where r1: "erase n s h c = Some r1" using "4.IH"(1) by blast
  show ?case
  proof (cases r1)
    case (Pair s1 e)
    show ?thesis
    proof (cases e)
      case None
      have "strict_prefix h (h @ split_path c)" by (simp add: strict_prefix_def)
      then have "size_at s1 h \<le> size_at s h"
        using erase_size_mono(1)[OF r1] Pair by simp
      then have "erase_subkeys n s1 h path cs \<noteq> None"
        using "4.IH"(2)[OF r1 Pair [symmetric] None] "4.prems" by simp
      with r1 Pair None show ?thesis by simp
    qed (simp add: r1 Pair)
  qed
qed simp_all

subsection \<open>What the eraser does\<close>

lemma remove_at_snoc: "remove_at (h @ [c]) s = map_at h (drop_child c) s"
  by (simp add: remove_at_def)

lemma erase_removes:
  shows "wf_key s \<Longrightarrow> lookup_key s (k @ split_path path) = Some t \<Longrightarrow> unlocked t \<Longrightarrow>
           k @ split_path path \<noteq> [] \<Longrightarrow> size_at s (k @ split_path path) < n \<Longrightarrow>
           erase n s k path = Some (remove_at (k @ split_path path) s, None)"
    and "wf_key s \<Longrightarrow> lookup_key s h = Some (RKey l vs ds) \<Longrightarrow> unlocked (RKey l vs ds) \<Longrightarrow>
           cs = map fst ds \<Longrightarrow> size_at s h \<le> n \<Longrightarrow>
           erase_subkeys n s h path cs = Some (map_at h (\<lambda>_. RKey l vs []) s, None)"
proof (induction n s k path and n s h path cs arbitrary: t and l vs ds
    rule: erase_erase_subkeys.induct)
  case (2 n s k path)
  let ?p = "k @ split_path path"
  obtain l vs ds where t: "t = RKey l vs ds" by (cases t)
  have l: "\<not> l" using "2.prems"(3) t by simp
  have op: "reg_open_key s ?p = Inr ?p"
    using "2.prems"(2) l t by (simp add: reg_open_key_def)
  have nm: "reg_subkey_names s ?p = Inr (map fst ds)"
    using "2.prems"(2) t by (simp add: reg_subkey_names_def)
  have lk: "lookup_key s ?p = Some (RKey l vs ds)" using "2.prems"(2) t by simp
  have sz: "size_at s ?p \<le> n" using "2.prems"(5) by simp
  have "erase_subkeys n s ?p path (map fst ds) = Some (map_at ?p (\<lambda>_. RKey l vs []) s, None)"
    using "2.IH"[OF refl op nm "2.prems"(1) lk _ refl sz] "2.prems"(3) t by simp
  moreover have "reg_delete_key (map_at ?p (\<lambda>_. RKey l vs []) s) ?p
      = Inr (remove_at ?p s)"
    using "2.prems"(2,4) l
    by (simp add: reg_delete_key_leaf lookup_map_at remove_at_map_at)
  ultimately show ?case using op nm by (simp add: Let_def)
next
  case (3 n s h path)
  then show ?case by (simp add: map_at_same)
next
  case (4 n s h path c cs)
  obtain t ds' where ds: "ds = (c, t) # ds'" and cs: "cs = map fst ds'"
    using "4.prems"(4) by (cases ds) auto
  have wfh: "wf_key (RKey l vs ds)" using "4.prems"(1,2) by (rule wf_lookup_key)
  then have split_c: "split_path c = [c]"
    using ds by (simp add: split_path_no_bs valid_name_def)
  have lt: "lookup_key s (h @ [c]) = Some t"
    using "4.prems"(2) ds by (simp add: lookup_key_snoc)
  have ut: "unlocked t" using "4.prems"(3) ds by simp
  have "size_at s (h @ [c]) < n"
    using "4.prems"(2,5) by (intro size_at_append_less) (simp_all add: size_at_def ksize_pos)
  then have r1: "erase n s h c = Some (remove_at (h @ [c]) s, None)"
    using "4.IH"(1) "4.prems"(1) lt ut split_c by simp
  let ?s1 = "remove_at (h @ [c]) s"
  have l1: "lookup_key ?s1 h = Some (RKey l vs ds')"
    using "4.prems"(2) ds by (simp add: remove_at_snoc lookup_map_at)
  have sz1: "size_at ?s1 h \<le> n"
    using "4.prems"(5) l1 "4.prems"(2) ds by (simp add: size_at_def)
  have wf1: "wf_key ?s1" using "4.prems"(1) by (rule wf_remove_at)
  have ul1: "unlocked (RKey l vs ds')" using "4.prems"(3) ds by simp
  have "erase_subkeys n ?s1 h path cs = Some (map_at h (\<lambda>_. RKey l vs []) ?s1, None)"
    by (rule "4.IH"(2)[OF r1 refl refl wf1 l1 ul1 cs sz1])
  moreover have "map_at h (\<lambda>_. RKey l vs []) ?s1 = map_at h (\<lambda>_. RKey l vs []) s"
    by (simp add: remove_at_snoc map_at_map_at comp_def)
  ultimately show ?case using r1 by simp
qed simp

text \<open>
  The subkey loop over a prefix of erasable children: each is erased in turn, so the loop
  continues on the hive with that prefix removed.
\<close>

lemma erase_subkeys_prefix:
  "wf_key s \<Longrightarrow> lookup_key s h = Some (RKey l vs (pre @ rest)) \<Longrightarrow> \<forall>(m, d) \<in> set pre. unlocked d \<Longrightarrow>
   size_at s h \<le> n \<Longrightarrow> 0 < n \<Longrightarrow>
   erase_subkeys n s h path (map fst pre @ cs) = erase_subkeys n (map_at h (\<lambda>_. RKey l vs rest) s) h path cs"
proof (induction pre arbitrary: s)
  case Nil
  then show ?case by (simp add: map_at_same)
next
  case (Cons ct pre)
  obtain c t where ct: "ct = (c, t)" by (cases ct)
  have wfh: "wf_key (RKey l vs ((c, t) # pre @ rest))" using wf_lookup_key[OF Cons.prems(1,2)] ct by simp
  then have split_c: "split_path c = [c]" by (simp add: split_path_no_bs valid_name_def)
  have lt: "lookup_key s (h @ split_path c) = Some t"
    using Cons.prems(2) ct split_c by (simp add: lookup_key_snoc)
  have ut: "unlocked t" using Cons.prems(3) ct by simp
  have "size_at s (h @ split_path c) < n"
    using Cons.prems(2,4,5) split_c by (intro size_at_append_less) simp_all
  then have r1: "erase n s h c = Some (remove_at (h @ [c]) s, None)"
    using erase_removes(1)[OF Cons.prems(1) lt ut] split_c by simp
  let ?s1 = "remove_at (h @ [c]) s"
  have l1: "lookup_key ?s1 h = Some (RKey l vs (pre @ rest))"
    using Cons.prems(2) ct by (simp add: remove_at_snoc lookup_map_at)
  have sz1: "size_at ?s1 h \<le> n"
    using Cons.prems(2,4) l1 ct by (simp add: size_at_def)
  have wf1: "wf_key ?s1" using Cons.prems(1) by (rule wf_remove_at)
  have "erase_subkeys n ?s1 h path (map fst pre @ cs) = erase_subkeys n (map_at h (\<lambda>_. RKey l vs rest) ?s1) h path cs"
    using Cons.IH[OF wf1 l1 _ sz1 Cons.prems(5)] Cons.prems(3) by simp
  moreover have "map_at h (\<lambda>_. RKey l vs rest) ?s1 = map_at h (\<lambda>_. RKey l vs rest) s"
    by (simp add: remove_at_snoc map_at_map_at comp_def)
  ultimately show ?case using r1 ct by simp
qed

subsection \<open>Every outcome keeps the hive well-formed\<close>

lemma erase_wf:
  shows "erase n s k path = Some (s', e) \<Longrightarrow> wf_key s \<Longrightarrow> wf_key s'"
    and "erase_subkeys n s h path cs = Some (s', e) \<Longrightarrow> wf_key s \<Longrightarrow> wf_key s'"
proof (induction n s k path and n s h path cs arbitrary: s' e and s' e rule: erase_erase_subkeys.induct)
  case (2 n s k path)
  then show ?case
    by (auto simp: Let_def split: sum.splits option.splits prod.splits if_splits)
       (meson wf_reg_delete_key)
next
  case (4 n s h path c cs)
  then show ?case by (auto split: option.splits prod.splits)
qed simp_all

text \<open>The form the synchronizer uses: erasing a top-level path whose subtree is erasable.\<close>

lemma erase_erasable:
  assumes "wf_key s" and "erasable s (split_path path)"
  shows "deleteRegKeyRecursive s [] path = Some (remove_at (split_path path) s, None)"
proof (cases "lookup_key s (split_path path)")
  case None
  then show ?thesis by (simp add: deleteRegKeyRecursive_def reg_open_key_def remove_at_missing)
next
  case (Some t)
  then show ?thesis
    using assms size_at_le_ksize[of s "split_path path"] erase_removes(1)[of s "[]" path t "Suc (ksize s)"]
    unfolding deleteRegKeyRecursive_def erasable_def by simp
qed

subsection \<open>Properties of the eraser\<close>

text \<open>
  C11: on a well-formed hive in which no key of the subtree at the path is locked, the
  eraser succeeds and leaves the hive with exactly that subtree removed (the abstract
  operation \<open>remove_at\<close>): every descendant is deleted before its parent.
\<close>

theorem deleteRegKeyRecursive_removes:
  assumes "wf_key s" and "lookup_key s (k @ split_path path) = Some t" and "unlocked t"
    and "k @ split_path path \<noteq> []"
  shows "deleteRegKeyRecursive s k path = Some (remove_at (k @ split_path path) s, None)"
  unfolding deleteRegKeyRecursive_def
  using assms size_at_le_ksize[of s "k @ split_path path"]
  by (intro erase_removes(1)) auto

theorem deleteRegKeyRecursive_removes_witness:
  "wf_key (RKey False [] [(''A'', RKey False [] [(''b'', RKey False [] []), (''c'', RKey False [(''v'', REG_SZ ''1'')] [])])]) \<and>
   lookup_key (RKey False [] [(''A'', RKey False [] [(''b'', RKey False [] []), (''c'', RKey False [(''v'', REG_SZ ''1'')] [])])]) ([] @ split_path ''A'') = Some (RKey False [] [(''b'', RKey False [] []), (''c'', RKey False [(''v'', REG_SZ ''1'')] [])]) \<and> unlocked (RKey False [] [(''b'', RKey False [] []), (''c'', RKey False [(''v'', REG_SZ ''1'')] [])]) \<and>
   [] @ split_path ''A'' \<noteq> [] \<and>
   deleteRegKeyRecursive (RKey False [] [(''A'', RKey False [] [(''b'', RKey False [] []), (''c'', RKey False [(''v'', REG_SZ ''1'')] [])])]) [] ''A'' = Some (RKey False [] [], None)"
proof -
  have h1: "wf_key (RKey False [] [(''A'', RKey False [] [(''b'', RKey False [] []), (''c'', RKey False [(''v'', REG_SZ ''1'')] [])])])" by code_simp
  have h2: "lookup_key (RKey False [] [(''A'', RKey False [] [(''b'', RKey False [] []), (''c'', RKey False [(''v'', REG_SZ ''1'')] [])])]) ([] @ split_path ''A'') = Some (RKey False [] [(''b'', RKey False [] []), (''c'', RKey False [(''v'', REG_SZ ''1'')] [])])" by code_simp
  have h3: "unlocked (RKey False [] [(''b'', RKey False [] []), (''c'', RKey False [(''v'', REG_SZ ''1'')] [])])" by code_simp
  have h4: "[] @ split_path ''A'' \<noteq> []" by simp
  have r: "remove_at ([] @ split_path ''A'') (RKey False [] [(''A'', RKey False [] [(''b'', RKey False [] []), (''c'', RKey False [(''v'', REG_SZ ''1'')] [])])]) = RKey False [] []" by code_simp
  show ?thesis
    using deleteRegKeyRecursive_removes[OF h1 h2 h3 h4] h1 h2 h3 h4 r by simp
qed

text \<open>
  C13: erasing a path that does not exist succeeds and changes nothing (the
  \<open>errors.Is(err, syscall.ENOENT)\<close> branch of the first \<open>OpenKey\<close>).
\<close>

theorem deleteRegKeyRecursive_not_found:
  "lookup_key s (k @ split_path path) = None \<Longrightarrow> deleteRegKeyRecursive s k path = Some (s, None)"
  by (simp add: deleteRegKeyRecursive_def reg_open_key_def Let_def)

theorem deleteRegKeyRecursive_not_found_witness:
  "lookup_key (RKey False [] [(''A'', RKey False [] [(''b'', RKey False [] []), (''c'', RKey False [(''v'', REG_SZ ''1'')] [])])]) ([] @ split_path ''Z'') = None \<and>
   deleteRegKeyRecursive (RKey False [] [(''A'', RKey False [] [(''b'', RKey False [] []), (''c'', RKey False [(''v'', REG_SZ ''1'')] [])])]) [] ''Z'' = Some (RKey False [] [(''A'', RKey False [] [(''b'', RKey False [] []), (''c'', RKey False [(''v'', REG_SZ ''1'')] [])])], None)"
proof -
  have h: "lookup_key (RKey False [] [(''A'', RKey False [] [(''b'', RKey False [] []), (''c'', RKey False [(''v'', REG_SZ ''1'')] [])])]) ([] @ split_path ''Z'') = None" by code_simp
  show ?thesis using deleteRegKeyRecursive_not_found[OF h] h by simp
qed

lemma erase_locked:
  "lookup_key s (k @ split_path path) = Some t \<Longrightarrow> locked t \<Longrightarrow>
   deleteRegKeyRecursive s k path = Some (s, Some (EDelOpen path (Errno ERROR_ACCESS_DENIED)))"
  by (simp add: deleteRegKeyRecursive_def reg_open_key_def Let_def)

lemma deleteRegKeyRecursive_total: "deleteRegKeyRecursive s k path \<noteq> None"
  unfolding deleteRegKeyRecursive_def
  using size_at_le_ksize[of s "k @ split_path path"]
  by (intro erase_fuel_enough(1)) simp

text \<open>
  C12: the eraser always returns: the fuel \<open>deleteRegKeyRecursive\<close> supplies (one more
  than the number of keys in the hive) bounds the depth of its recursion.
\<close>

theorem deleteRegKeyRecursive_returns: "deleteRegKeyRecursive s k path \<noteq> None"
  by (rule deleteRegKeyRecursive_total)

text \<open>
  C14: a key the process may not open makes the eraser fail at once with the error
  wrapped by the path, leaving the hive unchanged.
\<close>

theorem deleteRegKeyRecursive_locked:
  "lookup_key s (k @ split_path path) = Some t \<Longrightarrow> locked t \<Longrightarrow>
   deleteRegKeyRecursive s k path = Some (s, Some (EDelOpen path (Errno ERROR_ACCESS_DENIED)))"
  by (rule erase_locked)

theorem deleteRegKeyRecursive_locked_witness:
  "lookup_key (RKey False [] [(''A'', RKey True [] [])]) ([] @ split_path ''A'') = Some (RKey True [] []) \<and>
   locked (RKey True [] []) \<and>
   deleteRegKeyRecursive (RKey False [] [(''A'', RKey True [] [])]) [] ''A'' =
     Some (RKey False [] [(''A'', RKey True [] [])], Some (EDelOpen ''A'' (Errno ERROR_ACCESS_DENIED)))"
proof -
  have h: "lookup_key (RKey False [] [(''A'', RKey True [] [])]) ([] @ split_path ''A'') = Some (RKey True [] [])" by code_simp
  have l: "locked (RKey True [] [])" by simp
  show ?thesis using deleteRegKeyRecursive_locked[OF h l] h l by simp
qed

text \<open>
  C15: the erasure is fail-fast and not transactional: subkeys are erased in enumeration
  order, and when one of them cannot be erased the keys erased before it stay deleted,
  the ones after it are not attempted, and the error names the subkey and the path.
\<close>

theorem deleteRegKeyRecursive_fail_fast:
  assumes "wf_key s" and "lookup_key s (k @ split_path path) = Some (RKey False vs (pre @ (c, t) # post))"
    and "\<forall>(m, d) \<in> set pre. unlocked d" and "locked t"
  shows "deleteRegKeyRecursive s k path =
           Some (map_at (k @ split_path path) (\<lambda>_. RKey False vs ((c, t) # post)) s,
                 Some (EDelSubkey c path (EDelOpen c (Errno ERROR_ACCESS_DENIED))))"
proof -
  let ?p = "k @ split_path path" and ?s1 = "map_at (k @ split_path path) (\<lambda>_. RKey False vs ((c, t) # post)) s"
  obtain m where n: "ksize s = Suc m" using ksize_pos[of s] by (cases "ksize s") simp_all
  have wfh: "wf_key (RKey False vs (pre @ (c, t) # post))" using assms(1,2) by (rule wf_lookup_key)
  then have split_c: "split_path c = [c]" by (simp add: split_path_no_bs valid_name_def)
  have op: "reg_open_key s ?p = Inr ?p" using assms(2) by (simp add: reg_open_key_def)
  have nm: "reg_subkey_names s ?p = Inr (map fst pre @ c # map fst post)"
    using assms(2) by (simp add: reg_subkey_names_def)
  have loop: "erase_subkeys (ksize s) s ?p path (map fst pre @ c # map fst post) =
              erase_subkeys (ksize s) ?s1 ?p path (c # map fst post)"
    using erase_subkeys_prefix[OF assms(1,2,3)] size_at_le_ksize[of s ?p] ksize_pos[of s] by simp
  have "lookup_key ?s1 (?p @ [c]) = Some t"
    using assms(2) unfolding lookup_key_snoc lookup_map_at by simp
  then have "erase (ksize s) ?s1 ?p c = Some (?s1, Some (EDelOpen c (Errno ERROR_ACCESS_DENIED)))"
    using assms(4) n split_c by (simp add: reg_open_key_def Let_def)
  then show ?thesis
    using op nm loop by (simp add: deleteRegKeyRecursive_def Let_def)
qed

theorem deleteRegKeyRecursive_fail_fast_witness:
  "deleteRegKeyRecursive
     (RKey False [] [(''A'', RKey False [] [(''b'', RKey False [] []), (''c'', RKey True [] []),
        (''d'', RKey False [] [])])]) [] ''A'' =
   Some (map_at ([] @ split_path ''A'') (\<lambda>_. RKey False [] [(''c'', RKey True [] []), (''d'', RKey False [] [])])
           (RKey False [] [(''A'', RKey False [] [(''b'', RKey False [] []), (''c'', RKey True [] []),
              (''d'', RKey False [] [])])]),
         Some (EDelSubkey ''c'' ''A'' (EDelOpen ''c'' (Errno ERROR_ACCESS_DENIED))))"
proof -
  have h: "wf_key (RKey False [] [(''A'', RKey False [] [(''b'', RKey False [] []), (''c'', RKey True [] []),
        (''d'', RKey False [] [])])]) \<and>
    lookup_key (RKey False [] [(''A'', RKey False [] [(''b'', RKey False [] []), (''c'', RKey True [] []),
        (''d'', RKey False [] [])])]) ([] @ split_path ''A'') =
      Some (RKey False [] ([(''b'', RKey False [] [])] @ (''c'', RKey True [] []) # [(''d'', RKey False [] [])]))"
    by code_simp
  show ?thesis
    using deleteRegKeyRecursive_fail_fast[of _ "[]" "''A''" "[]" "[(''b'', RKey False [] [])]" "''c''" "RKey True [] []" "[(''d'', RKey False [] [])]"] h
    by simp
qed

end
