(* ===== verification/Manifest.thy ===== *)
theory Manifest
  imports Prelude "HOL-Library.Word"
begin

text \<open>
  The manifest's data model (src/main.go, lines 185-205), as \<open>json.Unmarshal\<close>
  leaves it. A \<open>ContextMenu\<close> is one entry: its \<open>Type\<close> is the string of the JSON
  field (any string, \<open>"folder"\<close> selecting a submenu), \<open>IconIndex\<close> is an optional
  Go \<open>int\<close>, \<open>Command\<close> a list of tokens, and \<open>Items\<close> the nested entries. A Go
  map is visited by \<open>range\<close> in an unspecified order: the model takes the entries as a
  list in the order the loop visits them. A value of the map is a \<open>*ContextMenu\<close>;
  the JSON literal \<open>null\<close> decodes to a nil pointer, modelled as \<open>None\<close>.
\<close>

datatype context_menu = ContextMenu
  (cm_type: string)
  (title: string)
  (icon_path: string)
  (icon_index: "64 word option")
  (extended: bool)
  (admin: bool)
  (command: "string list")
  (items: "(string \<times> context_menu option) list")

definition ContextMenuType_Item :: string where
  "ContextMenuType_Item = ''item''"

definition ContextMenuType_Folder :: string where
  "ContextMenuType_Folder = ''folder''"

type_synonym manifest = "(string \<times> context_menu option) list"

text \<open>The nested entries of a menu are smaller than it (for the synchronizer's recursion).\<close>

lemma size_items_le:
  "size_list (\<lambda>(i, y). size_option size y) its \<le> size_list (size_prod (\<lambda>x. 0) (size_option size)) its"
  by (induction its) auto

lemma size_items_lt: "size_list (\<lambda>(i, y). size_option size y) (items c) < size c"
proof (cases c)
  case (ContextMenu t ti ip ii e a cmd its)
  have "size_list (\<lambda>(i, y). size_option size y) its \<le> size_list (size_prod (\<lambda>x. 0) (size_option size)) its"
    by (rule size_items_le)
  then show ?thesis by (simp add: ContextMenu)
qed

lemma size_items_less: "size_list (\<lambda>(i, y). size_option size y) (items c) < Suc (size c)"
  using size_items_lt[of c] by simp

end
