(* ===== verification/Locator.thy ===== *)
theory Locator
  imports RegPath
begin

text \<open>
  The two file locators, \<open>findManifest\<close> (src/main.go, lines 113-134) and
  \<open>findNircmd\<close> (lines 136-177) with its process-wide cache \<open>_nircmdPath\<close>. The file
  system and the process environment are a read-only record \<open>host\<close>: the results of
  \<open>os.Getwd\<close> and \<open>os.Executable\<close> (\<open>None\<close> for an error), the paths for which
  \<open>os.Stat\<close> succeeds on a regular file, and \<open>exec.LookPath\<close> (the path it returns
  and whether it succeeded). \<open>filepath.Join\<close> and \<open>filepath.Dir\<close> are modelled
  for clean Windows paths (no \<open>.\<close>, \<open>..\<close> or doubled separators), which is what
  \<open>os.Getwd\<close> and \<open>os.Executable\<close> return; joining to a bare drive \<open>C:\<close> gives the
  drive-relative \<open>C:f\<close>, as Go does. Both functions return Go's named
  results: the path variable as it stands at \<open>return\<close>, and the error.
\<close>

record host =
  getwd :: "string option"
  executable :: "string option"
  regular_files :: "string list"
  look_path :: "string \<Rightarrow> string \<times> bool"

definition is_file :: "host \<Rightarrow> string \<Rightarrow> bool" where
  "is_file h p \<longleftrightarrow> p \<in> set (regular_files h)"

definition fp_join :: "string \<Rightarrow> string \<Rightarrow> string" where
  "fp_join a b =
     (if a = [] then b
      else if last a = backslash \<or> (length a = 2 \<and> a ! 1 = CHR '':'') then a @ b
      else a @ backslash # b)"

definition fp_dir :: "string \<Rightarrow> string" where
  "fp_dir p =
     (if backslash \<notin> set p then ''.''
      else let d = rev (tl (dropWhile (\<lambda>c. c \<noteq> backslash) (rev p)))
           in if d = [] \<or> (length d = 2 \<and> d ! 1 = CHR '':'') then d @ [backslash] else d)"

definition nircmdFilename :: string where
  "nircmdFilename = ''nircmd.exe''"

definition manifestFilename :: string where
  "manifestFilename = ''manifest.json''"

text \<open>The probes of \<open>findNircmd\<close> in one directory: the file itself, then \<open>bin\<close>.\<close>

definition probe_dir :: "host \<Rightarrow> string \<Rightarrow> string option" where
  "probe_dir h fp =
     (let p1 = fp_join fp nircmdFilename; p2 = fp_join (fp_join fp ''bin'') nircmdFilename
      in if is_file h p1 then Some p1 else if is_file h p2 then Some p2 else None)"

definition nircmd_search :: "host \<Rightarrow> string \<times> error option" where
  "nircmd_search h =
     (case (case getwd h of None \<Rightarrow> None | Some fp \<Rightarrow> probe_dir h fp) of
        Some p \<Rightarrow> (p, None)
      | None \<Rightarrow>
          (case (case executable h of None \<Rightarrow> None | Some fp \<Rightarrow> probe_dir h (fp_dir fp)) of
             Some p \<Rightarrow> (p, None)
           | None \<Rightarrow>
               (case look_path h nircmdFilename of
                  (p, True) \<Rightarrow> (p, None)
                | (p, False) \<Rightarrow> (p, Some (ENircmdNotFound ErrNotExist)))))"

text \<open>
  \<open>findNircmd\<close>: a non-empty cache is returned as it is; otherwise the search runs and
  the deferred assignment stores the path variable in the cache, whatever the outcome.
  The result is \<open>((nircmdPath, err), _nircmdPath')\<close>.
\<close>

definition findNircmd :: "host \<Rightarrow> string \<Rightarrow> (string \<times> error option) \<times> string" where
  "findNircmd h cache =
     (if cache \<noteq> [] then ((cache, None), cache)
      else let r = nircmd_search h in (r, fst r))"

definition findManifest :: "host \<Rightarrow> string \<times> error option" where
  "findManifest h =
     (let p1 = (case getwd h of None \<Rightarrow> None | Some fp \<Rightarrow> Some (fp_join fp manifestFilename));
          p2 = (case executable h of None \<Rightarrow> None | Some fp \<Rightarrow> Some (fp_join (fp_dir fp) manifestFilename))
      in case p1 of
           Some p \<Rightarrow> if is_file h p then (p, None)
                     else (case p2 of
                             Some q \<Rightarrow> if is_file h q then (q, None)
                                       else (q, Some (EManifestNotFound ErrNotExist))
                           | None \<Rightarrow> (p, Some (EManifestNotFound ErrNotExist)))
         | None \<Rightarrow> (case p2 of
                      Some q \<Rightarrow> if is_file h q then (q, None)
                                else (q, Some (EManifestNotFound ErrNotExist))
                    | None \<Rightarrow> ([], Some (EManifestNotFound ErrNotExist))))"


subsection \<open>Properties of the locators\<close>

text \<open>
  C28: the helper's location is memoised: once a search found it, later calls return it
  without consulting the host again, whatever the host now holds.
\<close>

theorem findNircmd_memo:
  assumes "findNircmd h [] = ((p, None), cache)" and "p \<noteq> []"
  shows "cache = p \<and> findNircmd h' cache = ((p, None), p)"
  using assms by (auto simp: findNircmd_def Let_def)

theorem findNircmd_memo_witness:
  "findNircmd \<lparr>getwd = None, executable = None, regular_files = [], look_path = (\<lambda>_. ([], False))\<rparr>
     (snd (findNircmd \<lparr>getwd = Some (''D:'' @ [backslash]), executable = None, regular_files = [''D:'' @ backslash # ''nircmd.exe''],
                        look_path = (\<lambda>_. ([], False))\<rparr> [])) =
   ((''D:'' @ backslash # ''nircmd.exe'', None), ''D:'' @ backslash # ''nircmd.exe'')"
proof -
  have "findNircmd \<lparr>getwd = Some (''D:'' @ [backslash]), executable = None, regular_files = [''D:'' @ backslash # ''nircmd.exe''],
                        look_path = (\<lambda>_. ([], False))\<rparr> [] =
        ((''D:'' @ backslash # ''nircmd.exe'', None), ''D:'' @ backslash # ''nircmd.exe'')" by code_simp
  moreover have "''D:'' @ backslash # ''nircmd.exe'' \<noteq> []" by simp
  ultimately show ?thesis using findNircmd_memo by fastforce
qed

text \<open>
  C27: the helper search order (spec, section 6): when the working directory has no
  \<open>nircmd.exe\<close> but its \<open>bin\<close> subdirectory has one, that one is used and cached, before
  the program's directory is looked at.
\<close>

theorem findNircmd_workdir_bin:
  assumes "getwd h = Some wd" and "\<not> is_file h (fp_join wd nircmdFilename)"
    and "is_file h (fp_join (fp_join wd ''bin'') nircmdFilename)"
  shows "findNircmd h [] = ((fp_join (fp_join wd ''bin'') nircmdFilename, None), fp_join (fp_join wd ''bin'') nircmdFilename)"
  using assms by (simp add: findNircmd_def nircmd_search_def probe_dir_def)

theorem findNircmd_workdir_bin_witness:
  "findNircmd \<lparr>getwd = Some (''C:'' @ backslash # ''menu''), executable = Some (''E:'' @ backslash # ''app.exe''),
       regular_files = [''C:'' @ backslash # ''menu'' @ backslash # ''bin'' @ backslash # ''nircmd.exe'',
                        ''E:'' @ backslash # ''nircmd.exe''],
       look_path = (\<lambda>_. ([], False))\<rparr> [] =
   ((fp_join (fp_join (''C:'' @ backslash # ''menu'') ''bin'') nircmdFilename, None),
    fp_join (fp_join (''C:'' @ backslash # ''menu'') ''bin'') nircmdFilename)"
proof -
  have "\<not> is_file \<lparr>getwd = Some (''C:'' @ backslash # ''menu''), executable = Some (''E:'' @ backslash # ''app.exe''),
       regular_files = [''C:'' @ backslash # ''menu'' @ backslash # ''bin'' @ backslash # ''nircmd.exe'',
                        ''E:'' @ backslash # ''nircmd.exe''],
       look_path = (\<lambda>_. ([], False))\<rparr> (fp_join (''C:'' @ backslash # ''menu'') nircmdFilename) \<and>
    is_file \<lparr>getwd = Some (''C:'' @ backslash # ''menu''), executable = Some (''E:'' @ backslash # ''app.exe''),
       regular_files = [''C:'' @ backslash # ''menu'' @ backslash # ''bin'' @ backslash # ''nircmd.exe'',
                        ''E:'' @ backslash # ''nircmd.exe''],
       look_path = (\<lambda>_. ([], False))\<rparr> (fp_join (fp_join (''C:'' @ backslash # ''menu'') ''bin'') nircmdFilename)"
    by code_simp
  then show ?thesis using findNircmd_workdir_bin by simp
qed

text \<open>
  C29: when the working directory holds no manifest, the manifest next to the executable
  is used.
\<close>

theorem findManifest_fallback:
  assumes "\<forall>wd. getwd h = Some wd \<longrightarrow> \<not> is_file h (fp_join wd manifestFilename)"
    and "executable h = Some ex" and "is_file h (fp_join (fp_dir ex) manifestFilename)"
  shows "findManifest h = (fp_join (fp_dir ex) manifestFilename, None)"
  using assms by (auto simp: findManifest_def split: option.split)

theorem findManifest_fallback_witness:
  "findManifest \<lparr>getwd = Some ''C:'', executable = Some (''E:'' @ backslash # ''tools'' @ backslash # ''cmm.exe''),
      regular_files = [''E:'' @ backslash # ''tools'' @ backslash # ''manifest.json''], look_path = (\<lambda>_. ([], False))\<rparr> =
   (fp_join (fp_dir (''E:'' @ backslash # ''tools'' @ backslash # ''cmm.exe'')) manifestFilename, None)"
proof -
  have "\<not> is_file \<lparr>getwd = Some ''C:'', executable = Some (''E:'' @ backslash # ''tools'' @ backslash # ''cmm.exe''),
      regular_files = [''E:'' @ backslash # ''tools'' @ backslash # ''manifest.json''], look_path = (\<lambda>_. ([], False))\<rparr>
      (fp_join ''C:'' manifestFilename) \<and>
    is_file \<lparr>getwd = Some ''C:'', executable = Some (''E:'' @ backslash # ''tools'' @ backslash # ''cmm.exe''),
      regular_files = [''E:'' @ backslash # ''tools'' @ backslash # ''manifest.json''], look_path = (\<lambda>_. ([], False))\<rparr>
      (fp_join (fp_dir (''E:'' @ backslash # ''tools'' @ backslash # ''cmm.exe'')) manifestFilename)" by code_simp
  then show ?thesis using findManifest_fallback by simp
qed

end
