(* ===== verification/Projector.thy ===== *)
theory Projector
  imports Manifest Locator "HOL-Library.Sublist"
begin

text \<open>
  The attribute projector: \<open>quoteWindowsPath\<close> (src/main.go, lines 284-286),
  \<open>ContextMenu.Icon\<close> (lines 207-218) and \<open>ContextMenu.CommandString\<close>
  (lines 220-241), with the library functions they call: \<open>strings.ReplaceAll\<close>,
  \<open>strings.ContainsAny\<close>, \<open>strings.Join\<close> (Prelude's \<open>join_with\<close>) and the
  \<open>%d\<close> verb of \<open>fmt.Sprintf\<close>. \<open>CommandString\<close> consults \<open>findNircmd\<close>, so it
  takes the host and the cache and returns the new cache; its \<open>log.Fatal\<close> is the
  error value \<open>Fatal\<close>.
\<close>

definition quoteWindowsPath :: "string \<Rightarrow> string" where
  "quoteWindowsPath p = dquote # p @ [dquote]"

definition manifestFolderToken :: string where
  "manifestFolderToken = ''${manifestFolder}''"

text \<open>
  \<open>strings.ReplaceAll(s, old, new)\<close>: left-to-right, non-overlapping; an empty
  \<open>old\<close> matches before every character and at the end.
\<close>

fun replace_all :: "string \<Rightarrow> string \<Rightarrow> string \<Rightarrow> string" where
  "replace_all s [] new = new @ concat (map (\<lambda>c. c # new) s)"
| "replace_all [] (x # xs) new = []"
| "replace_all (c # cs) (x # xs) new =
     (if take (Suc (length xs)) (c # cs) = x # xs
      then new @ replace_all (drop (length xs) cs) (x # xs) new
      else c # replace_all cs (x # xs) new)"

definition contains_any :: "string \<Rightarrow> string \<Rightarrow> bool" where
  "contains_any s chars \<longleftrightarrow> list_ex (\<lambda>c. c \<in> set chars) s"

fun show_nat :: "nat \<Rightarrow> string" where
  "show_nat n = (if n < 10 then [char_of (48 + n)] else show_nat (n div 10) @ [char_of (48 + n mod 10)])"

definition show_int :: "int \<Rightarrow> string" where
  "show_int i = (if i < 0 then CHR ''-'' # show_nat (nat (- i)) else show_nat (nat i))"

definition Icon :: "context_menu \<Rightarrow> string \<Rightarrow> string" where
  "Icon c manifestDir =
     (let iconPath = icon_path c in
      if iconPath = [] then []
      else let iconPath = quoteWindowsPath (replace_all iconPath manifestFolderToken manifestDir)
           in case icon_index c of
                None \<Rightarrow> iconPath
              | Some i \<Rightarrow> iconPath @ '','' @ show_int (sint i))"

text \<open>One token of the command line: substitute, then quote if it has a space or a \<open>%\<close>.\<close>

definition project_part :: "string \<Rightarrow> string \<Rightarrow> string" where
  "project_part manifestDir part =
     (let part = replace_all part manifestFolderToken manifestDir
      in if contains_any part '' %'' then quoteWindowsPath part else part)"

definition CommandString :: "host \<Rightarrow> string \<Rightarrow> context_menu \<Rightarrow> string \<Rightarrow> (error + string) \<times> string" where
  "CommandString h cache c manifestDir =
     (if admin c then
        (let ((nircmdPath, err), cache') = findNircmd h cache in
         case err of
           Some e \<Rightarrow> (Inl (Fatal e), cache')
         | None \<Rightarrow> (Inr (join_with '' ''
                       ([quoteWindowsPath nircmdPath, ''elevate''] @ map (project_part manifestDir) (command c))),
                     cache'))
      else (Inr (join_with '' '' (map (project_part manifestDir) (command c))), cache))"


subsection \<open>Properties of the projector\<close>

declare show_nat.simps [simp del]

text \<open>
  Decimal printing: a number below \<open>10 ^ k\<close> has at most \<open>k\<close> digits (at least one),
  so a Go \<open>int\<close> (64 bits on the Windows targets) prints in at most 20 characters,
  the minimum \<open>-9223372036854775808\<close> reaching the bound.
\<close>

lemma show_nat_length: "n < 10 ^ k \<Longrightarrow> length (show_nat n) \<le> max 1 k"
proof (induction n arbitrary: k rule: show_nat.induct)
  case (1 n)
  show ?case
  proof (cases "n < 10")
    case True
    then show ?thesis by (simp add: show_nat.simps)
  next
    case False
    have k: "2 \<le> k"
    proof (rule ccontr)
      assume "\<not> 2 \<le> k"
      then have "k = 0 \<or> k = 1" by auto
      then show False using False "1.prems" by auto
    qed
    have "(10::nat) ^ k = 10 * 10 ^ (k - 1)" using k by (cases k) simp_all
    then have "n div 10 < 10 ^ (k - 1)" using "1.prems" by (simp add: div_less_iff_less_mult mult.commute)
    then have "length (show_nat (n div 10)) \<le> max 1 (k - 1)" using "1.IH"[OF False] by blast
    then show ?thesis using False k by (subst show_nat.simps) simp
  qed
qed

lemma show_int_sint_length: "length (show_int (sint (i :: 64 word))) \<le> 20"
proof -
  have b: "- (2 ^ 63) \<le> sint i \<and> sint i < 2 ^ 63" using sint_ge[of i] sint_lt[of i] by simp
  have p: "(2::int) ^ 63 < 10 ^ 19" by simp
  show ?thesis
  proof (cases "sint i < 0")
    case True
    then have "nat (- sint i) < 10 ^ 19" using b p by (simp add: nat_less_iff)
    then show ?thesis using True show_nat_length[of "nat (- sint i)" 19] by (simp add: show_int_def)
  next
    case False
    then have "nat (sint i) < 10 ^ 19" using b p by (simp add: nat_less_iff)
    then show ?thesis using False show_nat_length[of "nat (sint i)" 19] by (simp add: show_int_def)
  qed
qed

lemma show_int_sint_min: "length (show_int (sint (- (2 ^ 63) :: 64 word))) = 20"
proof -
  have "sint (- (2 ^ 63) :: 64 word) = - (2 ^ 63)" by simp
  then show ?thesis by (simp add: show_int_def show_nat.simps)
qed

lemma replace_all_no_match:
  "old \<noteq> [] \<Longrightarrow> \<not> sublist old s \<Longrightarrow> replace_all s old new = s"
proof (induction s)
  case (Cons c cs)
  obtain x xs where old: "old = x # xs" using Cons.prems(1) by (cases old) auto
  have "take (Suc (length xs)) (c # cs) \<noteq> x # xs"
    using Cons.prems(2) old by (metis length_Cons prefix_imp_sublist take_is_prefix)
  moreover have "\<not> sublist old cs" using Cons.prems(2) by (auto simp: sublist_Cons_right)
  ultimately show ?case using Cons.IH Cons.prems(1) old by auto
next
  case Nil
  then show ?case by (cases old) simp_all
qed

text \<open>
  C26: a command token with no placeholder and no space or percent sign is passed through
  bare (unquoted).
\<close>

theorem project_part_bare:
  assumes "\<not> sublist manifestFolderToken part" and "\<not> contains_any part '' %''"
  shows "project_part d part = part"
proof -
  have "manifestFolderToken \<noteq> []" by (simp add: manifestFolderToken_def)
  then show ?thesis using assms by (simp add: project_part_def replace_all_no_match)
qed

theorem project_part_bare_witness: "project_part (''C:'' @ backslash # ''menu'') ''/k'' = ''/k''"
proof -
  have "\<not> sublist manifestFolderToken ''/k'' \<and> \<not> contains_any ''/k'' '' %''" by code_simp
  then show ?thesis using project_part_bare by blast
qed

text \<open>
  C23: tokens are quoted only for a space or a percent sign (spec, section 8, quotes
  the spec example's path token): for an item without elevation whose tokens, after
  substituting the placeholder, hold neither, the command line is the substituted
  tokens joined by single spaces, none of them quoted, whatever paths they name.
\<close>

theorem CommandString_unquoted_tokens:
  assumes "\<not> admin c" and "\<forall>t \<in> set (command c). \<not> contains_any (replace_all t manifestFolderToken d) '' %''"
  shows "CommandString h cache c d =
           (Inr (join_with '' '' (map (\<lambda>t. replace_all t manifestFolderToken d) (command c))), cache)"
proof -
  have e: "\<And>t. t \<in> set (command c) \<Longrightarrow> project_part d t = replace_all t manifestFolderToken d"
    using assms(2) by (simp add: project_part_def)
  have m: "map (project_part d) (command c) = map (\<lambda>t. replace_all t manifestFolderToken d) (command c)"
    using e by (rule map_cong[OF refl])
  show ?thesis using assms(1) by (simp add: CommandString_def m)
qed

theorem CommandString_unquoted_tokens_witness:
  "CommandString \<lparr>getwd = None, executable = None, regular_files = [], look_path = (\<lambda>_. ([], False))\<rparr> []
     (ContextMenu ''item'' [] [] None False False
        [''explorer.exe'', manifestFolderToken @ backslash # ''tools'' @ backslash # ''run.bat''] [])
     (''C:'' @ backslash # ''menu'') =
   (Inr (''explorer.exe C:'' @ backslash # ''menu'' @ backslash # ''tools'' @ backslash # ''run.bat''), [])"
proof -
  have h: "\<forall>t \<in> set [''explorer.exe'', manifestFolderToken @ backslash # ''tools'' @ backslash # ''run.bat''].
      \<not> contains_any (replace_all t manifestFolderToken (''C:'' @ backslash # ''menu'')) '' %''" by code_simp
  have j: "join_with '' '' (map (\<lambda>t. replace_all t manifestFolderToken (''C:'' @ backslash # ''menu''))
      [''explorer.exe'', manifestFolderToken @ backslash # ''tools'' @ backslash # ''run.bat'']) =
    ''explorer.exe C:'' @ backslash # ''menu'' @ backslash # ''tools'' @ backslash # ''run.bat''" by code_simp
  show ?thesis
    using CommandString_unquoted_tokens[of "ContextMenu ''item'' [] [] None False False
        [''explorer.exe'', manifestFolderToken @ backslash # ''tools'' @ backslash # ''run.bat''] []"
        "''C:'' @ backslash # ''menu''"] h j by simp
qed

text \<open>
  C22: for an item that needs elevation, once the helper is located the command line is
  the quoted helper path, \<open>elevate\<close>, then the projected tokens, each after one space.
\<close>

theorem CommandString_admin:
  assumes "admin c" and "findNircmd h cache = ((p, None), cache')"
  shows "CommandString h cache c d =
           (Inr (quoteWindowsPath p @ '' elevate'' @ concat (map (\<lambda>t. '' '' @ project_part d t) (command c))), cache')"
  using assms by (simp add: CommandString_def join_with_Cons comp_def)

theorem CommandString_admin_witness:
  "CommandString \<lparr>getwd = Some (''C:'' @ backslash # ''menu''), executable = None,
       regular_files = [''C:'' @ backslash # ''menu'' @ backslash # ''bin'' @ backslash # ''nircmd.exe''],
       look_path = (\<lambda>_. ([], False))\<rparr> []
     (ContextMenu ''item'' ''Edit as admin'' [] None False True [''notepad.exe''] []) (''C:'' @ backslash # ''menu'') =
   (Inr (quoteWindowsPath (''C:'' @ backslash # ''menu'' @ backslash # ''bin'' @ backslash # ''nircmd.exe'') @
         '' elevate'' @ concat (map (\<lambda>t. '' '' @ project_part (''C:'' @ backslash # ''menu'') t) [''notepad.exe''])),
    ''C:'' @ backslash # ''menu'' @ backslash # ''bin'' @ backslash # ''nircmd.exe'')"
proof -
  have f: "findNircmd \<lparr>getwd = Some (''C:'' @ backslash # ''menu''), executable = None,
       regular_files = [''C:'' @ backslash # ''menu'' @ backslash # ''bin'' @ backslash # ''nircmd.exe''],
       look_path = (\<lambda>_. ([], False))\<rparr> [] =
     ((''C:'' @ backslash # ''menu'' @ backslash # ''bin'' @ backslash # ''nircmd.exe'', None),
      ''C:'' @ backslash # ''menu'' @ backslash # ''bin'' @ backslash # ''nircmd.exe'')" by code_simp
  have a: "admin (ContextMenu ''item'' ''Edit as admin'' [] None False True [''notepad.exe''] [])" by simp
  show ?thesis using CommandString_admin[OF a f] by simp
qed

text \<open>
  C24: bounds of the icon projection: for a configured icon path the icon value is the
  substituted path plus at least the two quotes and at most 23 characters (two quotes, a
  comma and the index of a 64-bit Go \<open>int\<close>, at most 20 characters).
\<close>

theorem Icon_length:
  assumes "icon_path c \<noteq> []"
  shows "length (replace_all (icon_path c) manifestFolderToken d) + 2 \<le> length (Icon c d) \<and>
         length (Icon c d) \<le> length (replace_all (icon_path c) manifestFolderToken d) + 23"
proof (cases "icon_index c")
  case None
  then show ?thesis using assms by (simp add: Icon_def quoteWindowsPath_def Let_def)
next
  case (Some i)
  then show ?thesis using assms show_int_sint_length[of i] by (simp add: Icon_def quoteWindowsPath_def Let_def)
qed

theorem Icon_length_witness:
  "length (replace_all (manifestFolderToken @ backslash # ''icons'' @ backslash # ''app.dll'') manifestFolderToken
       (''C:'' @ backslash # ''menu'')) + 2 \<le>
     length (Icon (ContextMenu ''item'' [] (manifestFolderToken @ backslash # ''icons'' @ backslash # ''app.dll'') (Some 2)
       False False [] []) (''C:'' @ backslash # ''menu'')) \<and>
   length (Icon (ContextMenu ''item'' [] (manifestFolderToken @ backslash # ''icons'' @ backslash # ''app.dll'') (Some 2)
       False False [] []) (''C:'' @ backslash # ''menu'')) \<le>
     length (replace_all (manifestFolderToken @ backslash # ''icons'' @ backslash # ''app.dll'') manifestFolderToken
       (''C:'' @ backslash # ''menu'')) + 23"
  using Icon_length[of "ContextMenu ''item'' [] (manifestFolderToken @ backslash # ''icons'' @ backslash # ''app.dll'')
      (Some 2) False False [] []" "''C:'' @ backslash # ''menu''"] by simp

end
