(* ===== verification/Synchronizer.thy ===== *)
theory Synchronizer
  imports Eraser Projector
begin

text \<open>
  The tree synchronizer: \<open>createContextMenu\<close> (src/main.go, lines 18-84) and the loops
  over a map of entries in it (lines 62-67) and in \<open>run\<close> (lines 104-109), which are
  the same loop at a different parent. The world the program changes is the registry
  hive and the process-wide cache of \<open>findNircmd\<close>. Each Go step
  \<open>if err = f(); err != nil { err = wrap(err); return }\<close> is one combinator:
  \<open>reg_step\<close> for a registry call, \<open>erase_step\<close> for a call of
  \<open>deleteRegKeyRecursive\<close>, \<open>set_if\<close> for a conditional \<open>SetStringValue\<close>. The
  result is the final world with the returned error (\<open>None\<close> for \<open>nil\<close>), under an
  outer \<open>option\<close> that is \<open>None\<close> only if the eraser's fuel ran out, which never
  happens. \<open>log.Fatal\<close> and a nil-pointer panic end the process: they reach the top
  without being wrapped.
\<close>

record world =
  reg :: rkey
  nircmd_cache :: string

type_synonym outcome = "(world \<times> error option) option"

definition shell_root :: string where
  "shell_root =
     ''Software'' @ backslash # ''Classes'' @ backslash # ''Directory'' @ backslash #
     ''Background'' @ backslash # ''shell''"

definition reg_step :: "(rkey \<Rightarrow> error + rkey) \<Rightarrow> (error \<Rightarrow> error) \<Rightarrow> world \<Rightarrow> (world \<Rightarrow> outcome) \<Rightarrow> outcome" where
  "reg_step f wrap w k = (case f (reg w) of Inl e \<Rightarrow> Some (w, Some (wrap e)) | Inr r \<Rightarrow> k (w\<lparr>reg := r\<rparr>))"

definition erase_step :: "string \<Rightarrow> world \<Rightarrow> (world \<Rightarrow> outcome) \<Rightarrow> outcome" where
  "erase_step keyPath w k =
     (case deleteRegKeyRecursive (reg w) [] keyPath of
        None \<Rightarrow> None
      | Some (r, Some e) \<Rightarrow> Some (w\<lparr>reg := r\<rparr>, Some (EDeleteKey keyPath e))
      | Some (r, None) \<Rightarrow> k (w\<lparr>reg := r\<rparr>))"

definition set_if :: "bool \<Rightarrow> string \<Rightarrow> string \<Rightarrow> keypath \<Rightarrow> world \<Rightarrow> (world \<Rightarrow> outcome) \<Rightarrow> outcome" where
  "set_if b name v key w k =
     (if b then reg_step (\<lambda>r. reg_set_value r key name (REG_SZ v)) (ESetValue name) w k else k w)"

text \<open>\<open>log.Fatal\<close> and a panic are not returned to the caller's error handling.\<close>

fun wrap_menu :: "string \<Rightarrow> error \<Rightarrow> error" where
  "wrap_menu subID (Fatal e) = Fatal e"
| "wrap_menu subID NilDeref = NilDeref"
| "wrap_menu subID e = EMenu subID e"

text \<open>Lines 31-52: the title, then the optional icon, extended and shield markers.\<close>

definition set_attrs :: "context_menu \<Rightarrow> string \<Rightarrow> keypath \<Rightarrow> world \<Rightarrow> (world \<Rightarrow> outcome) \<Rightarrow> outcome" where
  "set_attrs c manifestDir key w k =
     reg_step (\<lambda>r. reg_set_value r key ''MUIVerb'' (REG_SZ (title c))) (ESetValue ''MUIVerb'') w (\<lambda>w.
     let icon = Icon c manifestDir in
     set_if (icon \<noteq> []) ''Icon'' icon key w (\<lambda>w.
     set_if (extended c) ''Extended'' [] key w (\<lambda>w.
     set_if (admin c) ''HasLUAShield'' [] key w k)))"

text \<open>Lines 69-81: the \<open>command\<close> subkey of an item, erased, created and given the command line.\<close>

definition install_command :: "host \<Rightarrow> string \<Rightarrow> context_menu \<Rightarrow> string \<Rightarrow> world \<Rightarrow> outcome" where
  "install_command h keyPath c manifestDir w =
     (let keyPath = keyPath @ backslash # ''command''; key = split_path keyPath in
      erase_step keyPath w (\<lambda>w.
      reg_step (\<lambda>r. reg_create_key r key) (ECreateKey keyPath) w (\<lambda>w.
      case CommandString h (nircmd_cache w) c manifestDir of
        (Inl e, cache) \<Rightarrow> Some (w\<lparr>nircmd_cache := cache\<rparr>, Some e)
      | (Inr cmd, cache) \<Rightarrow>
          reg_step (\<lambda>r. reg_set_value r key [] (REG_EXPAND_SZ cmd)) ESetCommand
            (w\<lparr>nircmd_cache := cache\<rparr>) (\<lambda>w. Some (w, None)))))"

function createContextMenu :: "host \<Rightarrow> string \<Rightarrow> string \<Rightarrow> context_menu option \<Rightarrow> string \<Rightarrow> world \<Rightarrow> outcome"
and createItems :: "host \<Rightarrow> string \<Rightarrow> (string \<times> context_menu option) list \<Rightarrow> string \<Rightarrow> world \<Rightarrow> outcome"
where
  "createContextMenu h parent menuID item manifestDir w =
     (let keyPath = shell_root @ parent @ backslash # menuID; key = split_path keyPath in
      erase_step keyPath w (\<lambda>w.
      reg_step (\<lambda>r. reg_create_key r key) (ECreateKey keyPath) w (\<lambda>w.
      case item of
        None \<Rightarrow> Some (w, Some NilDeref)
      | Some c \<Rightarrow>
          set_attrs c manifestDir key w (\<lambda>w.
          if cm_type c = ContextMenuType_Folder then
            reg_step (\<lambda>r. reg_set_value r key ''SubCommands'' (REG_SZ [])) (ESetValue ''SubCommands'') w (\<lambda>w.
            reg_step (\<lambda>r. reg_create_key r (split_path (keyPath @ backslash # ''shell''))) (ECreateKey keyPath) w (\<lambda>w.
            createItems h (parent @ backslash # menuID @ backslash # ''shell'') (items c) manifestDir w))
          else install_command h keyPath c manifestDir w))))"
| "createItems h parent [] manifestDir w = Some (w, None)"
| "createItems h parent ((subID, subItem) # rest) manifestDir w =
     (case createContextMenu h parent subID subItem manifestDir w of
        None \<Rightarrow> None
      | Some (w', Some e) \<Rightarrow> Some (w', Some (wrap_menu subID e))
      | Some (w', None) \<Rightarrow> createItems h parent rest manifestDir w')"
  by pat_completeness auto
termination
  by (relation "measure (case_sum (\<lambda>(h, p, i, it, d, w). size_option size it)
                                (\<lambda>(h, p, its, d, w). size_list (\<lambda>(i, it). size_option size it) its))")
     (auto simp: size_items_less)

subsection \<open>The declarative image of a manifest entry\<close>

text \<open>
  What one entry should look like in the hive (spec, sections 4.3 and 6): its values,
  then either the children container \<open>shell\<close> holding the images of its entries
  (a later entry replacing an earlier one of the same name) or the \<open>command\<close> subkey
  holding the projected command line. \<open>np\<close> is the path of the elevation helper
  the run uses.
\<close>

definition nircmd_of :: "host \<Rightarrow> string \<Rightarrow> string" where
  "nircmd_of h cache = (if cache \<noteq> [] then cache else fst (nircmd_search h))"

definition nircmd_ok :: "host \<Rightarrow> string \<Rightarrow> bool" where
  "nircmd_ok h cache \<longleftrightarrow> cache \<noteq> [] \<or> snd (nircmd_search h) = None"

definition expected_cmd :: "string \<Rightarrow> context_menu \<Rightarrow> string \<Rightarrow> string" where
  "expected_cmd np c manifestDir =
     join_with '' ''
       ((if admin c then [quoteWindowsPath np, ''elevate''] else []) @
        map (project_part manifestDir) (command c))"

definition attr_vals :: "string \<Rightarrow> context_menu \<Rightarrow> (string \<times> regval) list" where
  "attr_vals manifestDir c =
     [(''MUIVerb'', REG_SZ (title c))] @
     (if Icon c manifestDir \<noteq> [] then [(''Icon'', REG_SZ (Icon c manifestDir))] else []) @
     (if extended c then [(''Extended'', REG_SZ [])] else []) @
     (if admin c then [(''HasLUAShield'', REG_SZ [])] else [])"

definition menu_vals :: "string \<Rightarrow> context_menu \<Rightarrow> (string \<times> regval) list" where
  "menu_vals manifestDir c =
     attr_vals manifestDir c @
     (if cm_type c = ContextMenuType_Folder then [(''SubCommands'', REG_SZ [])] else [])"

function menu_key :: "string \<Rightarrow> string \<Rightarrow> context_menu \<Rightarrow> rkey"
and menu_items :: "string \<Rightarrow> string \<Rightarrow> (string \<times> context_menu option) list \<Rightarrow>
                   (string \<times> rkey) list \<Rightarrow> (string \<times> rkey) list"
where
  "menu_key np manifestDir c =
     RKey False (menu_vals manifestDir c)
       (if cm_type c = ContextMenuType_Folder
        then [(''shell'', RKey False [] (menu_items np manifestDir (items c) []))]
        else [(''command'', RKey False [([], REG_EXPAND_SZ (expected_cmd np c manifestDir))] [])])"
| "menu_items np manifestDir [] acc = acc"
| "menu_items np manifestDir ((i, None) # rest) acc = menu_items np manifestDir rest acc"
| "menu_items np manifestDir ((i, Some c) # rest) acc =
     menu_items np manifestDir rest (put_sub i (menu_key np manifestDir c) acc)"
  by pat_completeness auto
termination
  by (relation "measure (case_sum (\<lambda>(np, d, c). size c)
                                (\<lambda>(np, d, its, acc). size_list (\<lambda>(i, it). size_option size it) its))")
     (auto simp: size_items_lt)

text \<open>The images of a list of entries, in order, as a sequence of puts.\<close>

fun menu_entries :: "string \<Rightarrow> string \<Rightarrow> (string \<times> context_menu option) list \<Rightarrow> (string \<times> rkey) list" where
  "menu_entries np manifestDir [] = []"
| "menu_entries np manifestDir ((i, None) # rest) = menu_entries np manifestDir rest"
| "menu_entries np manifestDir ((i, Some c) # rest) = (i, menu_key np manifestDir c) # menu_entries np manifestDir rest"

text \<open>
  The entries the theorems are about: every identifier is a key name (no backslash),
  no entry is \<open>null\<close>, and an item that needs the elevation helper finds it
  (\<open>nok\<close>).
\<close>

function menu_ok :: "bool \<Rightarrow> context_menu \<Rightarrow> bool"
and items_ok :: "bool \<Rightarrow> (string \<times> context_menu option) list \<Rightarrow> bool"
where
  "menu_ok nok c =
     (if cm_type c = ContextMenuType_Folder then items_ok nok (items c) else \<not> admin c \<or> nok)"
| "items_ok nok [] = True"
| "items_ok nok ((i, None) # rest) = False"
| "items_ok nok ((i, Some c) # rest) = (valid_name i \<and> menu_ok nok c \<and> items_ok nok rest)"
  by pat_completeness auto
termination
  by (relation "measure (case_sum (\<lambda>(nok, c). size c)
                                (\<lambda>(nok, its). size_list (\<lambda>(i, it). size_option size it) its))")
     (auto simp: size_items_lt)

definition set_subs :: "((string \<times> rkey) list \<Rightarrow> (string \<times> rkey) list) \<Rightarrow> rkey \<Rightarrow> rkey" where
  "set_subs f k = RKey (locked k) (vals k) (f (subs k))"

text \<open>
  The kinds of the values under an entry's key (spec, sections 4.1 and 4.3): plain strings
  (\<open>REG_SZ\<close>) on the entry's key and below its \<open>shell\<close> key, and one expandable
  string (\<open>REG_EXPAND_SZ\<close>), the default value, on a \<open>command\<close> key. The flag tells
  an entry's key (\<open>True\<close>) from a \<open>shell\<close> key holding nested entries.
\<close>

definition is_sz :: "regval \<Rightarrow> bool" where
  "is_sz v = (case v of REG_SZ _ \<Rightarrow> True | REG_EXPAND_SZ _ \<Rightarrow> False)"

definition command_kinds :: "rkey \<Rightarrow> bool" where
  "command_kinds k = (subs k = [] \<and> (\<forall>(n, v) \<in> set (vals k). n = [] \<and> \<not> is_sz v))"

fun value_kinds :: "bool \<Rightarrow> rkey \<Rightarrow> bool" where
  "value_kinds True (RKey l vs cs) \<longleftrightarrow>
     (\<forall>(n, v) \<in> set vs. is_sz v) \<and>
     (\<forall>(n, c) \<in> set cs. if n = ''command'' then command_kinds c else n = ''shell'' \<and> value_kinds False c)"
| "value_kinds False (RKey l vs cs) \<longleftrightarrow> vs = [] \<and> (\<forall>(n, c) \<in> set cs. value_kinds True c)"

declare menu_key.simps [simp del] menu_ok.simps [simp del] createContextMenu.simps [simp del]

subsection \<open>Steps of the synchronizer\<close>

lemma value_names_distinct:
  "\<not> same_name ''Icon'' ''MUIVerb'' \<and> \<not> same_name ''Extended'' ''MUIVerb'' \<and>
   \<not> same_name ''Extended'' ''Icon'' \<and> \<not> same_name ''HasLUAShield'' ''MUIVerb'' \<and>
   \<not> same_name ''HasLUAShield'' ''Icon'' \<and> \<not> same_name ''HasLUAShield'' ''Extended'' \<and>
   \<not> same_name ''SubCommands'' ''MUIVerb'' \<and> \<not> same_name ''SubCommands'' ''Icon'' \<and>
   \<not> same_name ''SubCommands'' ''Extended'' \<and> \<not> same_name ''SubCommands'' ''HasLUAShield''"
  by code_simp

lemma erase_step_ok:
  "wf_key (reg w) \<Longrightarrow> erasable (reg w) (split_path kp) \<Longrightarrow>
   erase_step kp w k = k (w\<lparr>reg := remove_at (split_path kp) (reg w)\<rparr>)"
  by (simp add: erase_step_def erase_erasable)

lemma erase_step_missing:
  "lookup_key (reg w) (split_path kp) = None \<Longrightarrow> erase_step kp w k = k w"
  by (simp add: erase_step_def deleteRegKeyRecursive_def reg_open_key_def)

lemma reg_step_create:
  "path_unlocked (reg w) p \<Longrightarrow>
   reg_step (\<lambda>r. reg_create_key r p) wr w k = k (w\<lparr>reg := ensure p (reg w)\<rparr>)"
  by (simp add: reg_step_def reg_create_key_ok)

lemma reg_step_set:
  "lookup_key (reg w) p \<noteq> None \<Longrightarrow>
   reg_step (\<lambda>r. reg_set_value r p n v) wr w k = k (w\<lparr>reg := map_at p (set_val n v) (reg w)\<rparr>)"
  by (simp add: reg_step_def reg_set_value_ok)

lemma set_if_ok:
  "lookup_key (reg w) p \<noteq> None \<Longrightarrow>
   set_if b n v p w k = k (w\<lparr>reg := if b then map_at p (set_val n (REG_SZ v)) (reg w) else reg w\<rparr>)"
  by (simp add: set_if_def reg_step_set)

lemma CommandString_ok:
  assumes "admin c \<longrightarrow> nircmd_ok h cache"
  shows "\<exists>cache'. CommandString h cache c d = (Inr (expected_cmd (nircmd_of h cache) c d), cache') \<and>
           nircmd_of h cache' = nircmd_of h cache \<and> nircmd_ok h cache' = nircmd_ok h cache"
proof (cases "admin c")
  case True
  show ?thesis
  proof (cases "cache = []")
    case True
    obtain p e where s: "nircmd_search h = (p, e)" by fastforce
    have "e = None" using assms \<open>admin c\<close> True s by (simp add: nircmd_ok_def)
    then show ?thesis using \<open>admin c\<close> True s
      by (simp add: CommandString_def findNircmd_def expected_cmd_def nircmd_of_def nircmd_ok_def)
  next
    case False
    then show ?thesis using \<open>admin c\<close>
      by (simp add: CommandString_def findNircmd_def expected_cmd_def nircmd_of_def)
  qed
qed (simp add: CommandString_def expected_cmd_def)


lemma set_val_slot:
  assumes "lookup_key y P = Some k" and "sorted_names (subs k)"
  shows "lookup_key (map_at P (put_child i X) y) (P @ [i]) \<noteq> None"
    and "map_at (P @ [i]) (set_val n v) (map_at P (put_child i X) y) = map_at P (put_child i (set_val n v X)) y"
  using lookup_slot[OF assms, of i X "[]"] map_at_slot[OF assms, of i "[]" "set_val n v" X] by simp_all

lemma set_attrs_slot:
  assumes "lookup_key y P = Some k" and "sorted_names (subs k)"
  shows "set_attrs c d (P @ [i]) (w\<lparr>reg := map_at P (put_child i (RKey False [] cs)) y\<rparr>) cont =
         cont (w\<lparr>reg := map_at P (put_child i (RKey False (attr_vals d c) cs)) y\<rparr>)"
  using value_names_distinct
  by (simp add: set_attrs_def reg_step_set set_if_ok set_val_slot[OF assms] Let_def attr_vals_def put_val_def)


subsection \<open>Placing an entry\<close>

lemma install_command_slot:
  assumes y: "lookup_key y P = Some k" and srt: "sorted_names (subs k)"
    and kp: "split_path kp = P @ [i]" and ok: "admin c \<longrightarrow> nircmd_ok h (nircmd_cache w)"
  shows "\<exists>w'. install_command h kp c d (w\<lparr>reg := map_at P (put_child i (RKey False vs [])) y\<rparr>) = Some (w', None) \<and>
           reg w' = map_at P (put_child i (RKey False vs [(''command'', RKey False [([], REG_EXPAND_SZ (expected_cmd (nircmd_of h (nircmd_cache w)) c d))] [])])) y \<and>
           nircmd_of h (nircmd_cache w') = nircmd_of h (nircmd_cache w) \<and> nircmd_ok h (nircmd_cache w') = nircmd_ok h (nircmd_cache w)"
proof -
  let ?X = "RKey False vs []" and ?X1 = "RKey False vs [(''command'', RKey False [] [])]"
  have kc: "split_path (kp @ backslash # ''command'') = P @ i # [''command'']"
  proof -
    have "valid_name ''command''" by (simp add: valid_name_def backslash_def)
    then show ?thesis using kp by (simp add: split_path_sub)
  qed
  obtain cache' where cs: "CommandString h (nircmd_cache w) c d = (Inr (expected_cmd (nircmd_of h (nircmd_cache w)) c d), cache')"
    and np: "nircmd_of h cache' = nircmd_of h (nircmd_cache w)" and nk: "nircmd_ok h cache' = nircmd_ok h (nircmd_cache w)"
    using CommandString_ok[OF ok] by blast
  have e: "ensure [''command''] ?X = ?X1" by simp
  have l1: "lookup_key (map_at P (put_child i ?X1) y) (P @ i # [''command'']) \<noteq> None"
    using lookup_slot[OF y srt, of i ?X1 "[''command'']"] by simp
  have m: "map_at (P @ i # [''command'']) (set_val [] v) (map_at P (put_child i ?X1) y) =
      map_at P (put_child i (RKey False vs [(''command'', RKey False [([], v)] [])])) y" for v
    using map_at_slot[OF y srt, of i "[''command'']" "set_val [] v" ?X1] by (simp add: put_val_def)
  show ?thesis
    using cs np nk l1 m
    by (simp add: install_command_def Let_def kc erase_step_missing lookup_slot[OF y srt]
        reg_step_create path_unlocked_slot[OF y srt] ensure_slot[OF y srt] reg_step_set)
qed


lemma fold_value_names:
  "fold_name ''MUIVerb'' = ''MUIVERB'' \<and> fold_name ''Icon'' = ''ICON'' \<and>
   fold_name ''Extended'' = ''EXTENDED'' \<and> fold_name ''HasLUAShield'' = ''HASLUASHIELD'' \<and>
   fold_name ''SubCommands'' = ''SUBCOMMANDS''"
  by code_simp

lemma distinct_menu_vals: "distinct (map (fold_name \<circ> fst) (menu_vals d c))"
  by (simp add: menu_vals_def attr_vals_def fold_value_names)

lemma wf_menu_key:
  shows "menu_ok nok c \<Longrightarrow> wf_key (menu_key np d c)"
    and "items_ok nok its \<Longrightarrow> wf_key (RKey False [] acc) \<Longrightarrow> wf_key (RKey False [] (menu_items np d its acc))"
proof (induction np d c and np d its acc rule: menu_key_menu_items.induct)
  case (1 np d c)
  have names: "valid_name ''shell''" "valid_name ''command''" by (simp_all add: valid_name_def backslash_def)
  show ?case
  proof (cases "cm_type c = ContextMenuType_Folder")
    case True
    then have "wf_key (RKey False [] (menu_items np d (items c) []))"
      using "1.IH" "1.prems" by (simp add: sorted_names_def menu_ok.simps)
    then show ?thesis using True names distinct_menu_vals[of d c] by (simp add: menu_key.simps sorted_names_def)
  next
    case False
    then show ?thesis using names distinct_menu_vals[of d c] by (simp add: menu_key.simps sorted_names_def)
  qed
next
  case (4 np d i c rest acc)
  have "wf_key (put_child i (menu_key np d c) (RKey False [] acc))"
    using "4.prems" "4.IH"(1) by (intro wf_put_child) simp_all
  then show ?case using "4.IH"(2) "4.prems" by simp
qed simp_all

lemma unlocked_menu_key:
  shows "unlocked (menu_key np d c)"
    and "unlocked (RKey False [] acc) \<Longrightarrow> unlocked (RKey False [] (menu_items np d its acc))"
proof (induction np d c and np d its acc rule: menu_key_menu_items.induct)
  case (1 np d c)
  then show ?case by (simp add: menu_key.simps)
next
  case (4 np d i c rest acc)
  have "unlocked (RKey False [] (put_sub i (menu_key np d c) acc))"
    using "4.prems" "4.IH"(1) by (auto simp: put_sub_def dest!: set_del_sub [THEN subsetD])
  then show ?case using "4.IH"(2) by simp
qed simp_all

lemma wf_slot:
  "wf_key y \<Longrightarrow> valid_name i \<Longrightarrow> wf_key X \<Longrightarrow> wf_key (map_at P (put_child i X) y)"
  by (rule wf_map_at) (auto intro: wf_put_child dest: wf_lookup_key)

lemma erasable_slot:
  assumes "lookup_key y P = Some k" and "sorted_names (subs k)" and "unlocked M"
    and "erasable y (P @ [j])"
  shows "erasable (map_at P (put_child i M) y) (P @ [j])"
proof -
  have "lookup_key (map_at P (put_child i M) y) (P @ [j]) = find_sub j (put_sub i M (subs k))"
    using assms(1) by (cases k) (simp add: lookup_key_snoc lookup_map_at)
  then show ?thesis using assms by (simp add: find_sub_put_sub erasable_def lookup_key_snoc)
qed

lemma erasable_ensure: "erasable s (P @ [j]) \<Longrightarrow> erasable (ensure P s) (P @ [j])"
proof (cases "lookup_key s P")
  case None
  then have "lookup_key (ensure P s) P = Some (RKey False [] [])" by (simp add: lookup_ensure)
  then show ?thesis by (simp add: erasable_def lookup_key_snoc)
qed (simp add: ensure_existing)

lemma path_unlocked_remove:
  assumes "wf_key s" and "path_unlocked s P"
  shows "path_unlocked (remove_at (P @ [i]) s) (P @ [i])"
proof (cases "lookup_key s P")
  case None
  then have "lookup_key s (P @ [i]) = None" by (simp add: lookup_key_snoc)
  then show ?thesis using None assms(2) by (simp add: remove_at_def map_at_missing path_unlocked_snoc)
next
  case (Some k)
  have "sorted_names (subs k)" using wf_lookup_key[OF assms(1) Some] by (cases k) simp
  moreover have "\<not> locked k" using assms(2) Some by (simp add: path_unlocked_existing)
  ultimately have "path_unlocked (drop_child i k) [i]" by (cases k) (simp add: find_sub_del_sub)
  moreover have "lookup_key (remove_at (P @ [i]) s) P = Some (drop_child i k)"
    using Some by (simp add: remove_at_def lookup_map_at)
  ultimately show ?thesis by (simp add: path_unlocked_append)
qed


lemma split_path_shell:
  "valid_name i \<Longrightarrow>
   split_path (shell_root @ parent @ backslash # i @ backslash # ''shell'') = split_path (shell_root @ parent) @ [i, ''shell'']"
proof -
  assume i: "valid_name i"
  have "valid_name ''shell''" by (simp add: valid_name_def backslash_def)
  then have "split_path ((shell_root @ parent @ backslash # i) @ backslash # ''shell'') =
      split_path (shell_root @ parent @ backslash # i) @ [''shell'']" by (rule split_path_sub)
  moreover have "split_path ((shell_root @ parent) @ backslash # i) = split_path (shell_root @ parent) @ [i]"
    using i by (rule split_path_sub)
  ultimately show ?thesis by simp
qed

lemma subcommands_vals:
  "cm_type c = ContextMenuType_Folder \<Longrightarrow> put_val ''SubCommands'' (REG_SZ []) (attr_vals d c) = menu_vals d c"
  using value_names_distinct by (simp add: put_val_def attr_vals_def menu_vals_def)

lemma put_child_set_subs: "put_child n d k = set_subs (put_sub n d) k"
  by (cases k) (simp add: set_subs_def)

lemma lookup_ensure_at:
  assumes "wf_key s" and "path_unlocked s P" and "\<forall>n \<in> set P. valid_name n"
  obtains k where "lookup_key (ensure P s) P = Some k" and "sorted_names (subs k)" and "\<not> locked k"
    and "wf_key (ensure P s)"
proof -
  have wf: "wf_key (ensure P s)" using assms(1,3) by (rule wf_ensure)
  obtain k where k: "lookup_key (ensure P s) P = Some k" using lookup_ensure[of P s] by blast
  have "sorted_names (subs k)" using wf_lookup_key[OF wf k] by (cases k) simp
  moreover have "\<not> locked k"
    using path_unlocked_ensure[OF assms(2)] k by (simp add: path_unlocked_existing)
  ultimately show ?thesis using that k wf by blast
qed

text \<open>
  The first steps of an entry's call: the old subtree is erased and a fresh empty key is
  put in its place; then a \<open>null\<close> entry panics and any other entry has its values
  set and continues with its variant.
\<close>

lemma createContextMenu_created:
  assumes "wf_key (reg w)" and "path_unlocked (reg w) (split_path (shell_root @ parent))"
    and "erasable (reg w) (split_path (shell_root @ parent) @ [menuID])" and "valid_name menuID"
  shows "createContextMenu h parent menuID item d w =
    (let P = split_path (shell_root @ parent); keyPath = shell_root @ parent @ backslash # menuID;
         w1 = w\<lparr>reg := map_at P (put_child menuID (RKey False [] [])) (ensure P (reg w))\<rparr> in
     case item of
       None \<Rightarrow> Some (w1, Some NilDeref)
     | Some c \<Rightarrow>
         set_attrs c d (P @ [menuID]) w1 (\<lambda>w.
         if cm_type c = ContextMenuType_Folder then
           reg_step (\<lambda>r. reg_set_value r (split_path keyPath) ''SubCommands'' (REG_SZ [])) (ESetValue ''SubCommands'') w (\<lambda>w.
           reg_step (\<lambda>r. reg_create_key r (split_path (keyPath @ backslash # ''shell''))) (ECreateKey keyPath) w (\<lambda>w.
           createItems h (parent @ backslash # menuID @ backslash # ''shell'') (items c) d w))
         else install_command h keyPath c d w))"
proof -
  have kp: "split_path (shell_root @ parent @ backslash # menuID) = split_path (shell_root @ parent) @ [menuID]"
    using split_path_sub[OF assms(4), of "shell_root @ parent"] by simp
  show ?thesis
    using assms(1-3)
    by (simp add: createContextMenu.simps Let_def kp erase_step_ok reg_step_create path_unlocked_remove
        ensure_remove_at split: option.split)
qed

subsection \<open>The functional specification\<close>

text \<open>
  By induction on the calls: on a well-formed hive in which the parent path is not
  locked and the keys to be replaced can be erased, an entry's call succeeds and leaves
  the hive with the entry's image put under the parent (created if missing), and the
  loop leaves all entries' images, a later one replacing an earlier one of the same name.
  The helper's location is fixed by the first search and never changes.
\<close>

lemma createContextMenu_createItems_spec:
  shows "wf_key (reg w) \<Longrightarrow> path_unlocked (reg w) (split_path (shell_root @ parent)) \<Longrightarrow>
         erasable (reg w) (split_path (shell_root @ parent) @ [menuID]) \<Longrightarrow> valid_name menuID \<Longrightarrow>
         item = Some c \<Longrightarrow> menu_ok (nircmd_ok h (nircmd_cache w)) c \<Longrightarrow>
         \<exists>w'. createContextMenu h parent menuID item d w = Some (w', None) \<and>
           reg w' = map_at (split_path (shell_root @ parent))
                      (put_child menuID (menu_key (nircmd_of h (nircmd_cache w)) d c))
                      (ensure (split_path (shell_root @ parent)) (reg w)) \<and>
           nircmd_of h (nircmd_cache w') = nircmd_of h (nircmd_cache w) \<and>
           nircmd_ok h (nircmd_cache w') = nircmd_ok h (nircmd_cache w)"
    and "wf_key (reg w) \<Longrightarrow> path_unlocked (reg w) (split_path (shell_root @ parent)) \<Longrightarrow>
         (\<forall>(i, it) \<in> set its. erasable (reg w) (split_path (shell_root @ parent) @ [i])) \<Longrightarrow>
         items_ok (nircmd_ok h (nircmd_cache w)) its \<Longrightarrow>
         \<exists>w'. createItems h parent its d w = Some (w', None) \<and>
           reg w' = (if its = [] then reg w
                     else map_at (split_path (shell_root @ parent))
                            (set_subs (menu_items (nircmd_of h (nircmd_cache w)) d its))
                            (ensure (split_path (shell_root @ parent)) (reg w))) \<and>
           nircmd_of h (nircmd_cache w') = nircmd_of h (nircmd_cache w) \<and>
           nircmd_ok h (nircmd_cache w') = nircmd_ok h (nircmd_cache w)"
proof (induction h parent menuID item d w and h parent its d w arbitrary: c and rule: createContextMenu_createItems.induct)
  case (1 h parent menuID item d w)
  let ?P = "split_path (shell_root @ parent)" and ?kp = "shell_root @ parent @ backslash # menuID"
  let ?y = "ensure ?P (reg w)" and ?np = "nircmd_of h (nircmd_cache w)"
  have kp: "split_path ?kp = ?P @ [menuID]" using split_path_sub[OF "1.prems"(4), of "shell_root @ parent"] by simp
  obtain k where y: "lookup_key ?y ?P = Some k" and srt: "sorted_names (subs k)" and wfy: "wf_key ?y"
    using lookup_ensure_at[OF "1.prems"(1,2)] valid_split_path by blast
  have item: "item = Some c" by (rule "1.prems"(5))
  let ?w1 = "w\<lparr>reg := map_at ?P (put_child menuID (RKey False (attr_vals d c) [])) ?y\<rparr>"
  have head: "createContextMenu h parent menuID item d w =
      (if cm_type c = ContextMenuType_Folder then
         reg_step (\<lambda>r. reg_set_value r (?P @ [menuID]) ''SubCommands'' (REG_SZ [])) (ESetValue ''SubCommands'') ?w1 (\<lambda>w.
         reg_step (\<lambda>r. reg_create_key r (split_path (?kp @ backslash # ''shell''))) (ECreateKey ?kp) w (\<lambda>w.
         createItems h (parent @ backslash # menuID @ backslash # ''shell'') (items c) d w))
       else install_command h ?kp c d ?w1)"
    using createContextMenu_created[OF "1.prems"(1-4), of h item d] item
    by (simp add: Let_def set_attrs_slot[OF y srt] kp cong: if_cong)
  show ?case
  proof (cases "cm_type c = ContextMenuType_Folder")
    case False
    have ok: "admin c \<longrightarrow> nircmd_ok h (nircmd_cache ?w1)"
      using "1.prems"(6) False by (simp add: menu_ok.simps)
    obtain w' where ic: "install_command h ?kp c d ?w1 = Some (w', None)"
      and r: "reg w' = map_at ?P (put_child menuID (RKey False (attr_vals d c)
                [(''command'', RKey False [([], REG_EXPAND_SZ (expected_cmd ?np c d))] [])])) ?y"
      and n: "nircmd_of h (nircmd_cache w') = ?np" "nircmd_ok h (nircmd_cache w') = nircmd_ok h (nircmd_cache w)"
      using install_command_slot[OF y srt kp ok, of d "attr_vals d c"] by auto
    show ?thesis using head ic r n False item by (simp add: menu_key.simps menu_vals_def)
  next
    case True
    let ?X = "RKey False (menu_vals d c) [(''shell'', RKey False [] [])]"
    let ?w3 = "w\<lparr>reg := map_at ?P (put_child menuID ?X) ?y\<rparr>"
    note sh = split_path_shell[OF "1.prems"(4), of parent]
    have mid: "createContextMenu h parent menuID item d w =
        createItems h (parent @ backslash # menuID @ backslash # ''shell'') (items c) d ?w3"
      using head True
      by (simp add: reg_step_set set_val_slot[OF y srt] subcommands_vals sh reg_step_create
          path_unlocked_slot[OF y srt] ensure_slot[OF y srt])
    have vs: "valid_name ''shell''" by (simp add: valid_name_def backslash_def)
    have wf3: "wf_key (reg ?w3)"
      using wf_slot[OF wfy "1.prems"(4), of ?X ?P] distinct_menu_vals[of d c] vs
      by (simp add: sorted_names_def)
    have pu3: "path_unlocked (reg ?w3) (split_path (shell_root @ parent @ backslash # menuID @ backslash # ''shell''))"
      using sh by (simp add: path_unlocked_slot[OF y srt])
    have er3: "\<forall>(i, it) \<in> set (items c).
        erasable (reg ?w3) (split_path (shell_root @ parent @ backslash # menuID @ backslash # ''shell'') @ [i])"
      using sh by (simp add: erasable_def lookup_slot[OF y srt])
    have ok3: "items_ok (nircmd_ok h (nircmd_cache ?w3)) (items c)"
      using "1.prems"(6) True by (simp add: menu_ok.simps)
    obtain w' where ci: "createItems h (parent @ backslash # menuID @ backslash # ''shell'') (items c) d ?w3 = Some (w', None)"
      and r: "reg w' = (if items c = [] then reg ?w3
                 else map_at (?P @ [menuID, ''shell'']) (set_subs (menu_items ?np d (items c)))
                        (ensure (?P @ [menuID, ''shell'']) (reg ?w3)))"
      and n: "nircmd_of h (nircmd_cache w') = ?np" "nircmd_ok h (nircmd_cache w') = nircmd_ok h (nircmd_cache w)"
      using "1.IH"[OF refl refl item True, of ?w3] wf3 pu3 er3 ok3 sh by auto
    have "reg w' = map_at ?P (put_child menuID (menu_key ?np d c)) ?y"
    proof (cases "items c = []")
      case False
      have "ensure (?P @ [menuID, ''shell'']) (reg ?w3) = reg ?w3"
        using ensure_slot[OF y srt, of menuID "[''shell'']" ?X] by simp
      then show ?thesis using r False True map_at_slot[OF y srt, of menuID "[''shell'']"]
        by (simp add: menu_key.simps set_subs_def)
    qed (use r True in \<open>simp add: menu_key.simps\<close>)
    then show ?thesis using mid ci n by simp
  qed
next
  case (2 h parent d w)
  then show ?case by simp
next
  case (3 h parent subID subItem rest d w)
  let ?P = "split_path (shell_root @ parent)" and ?y = "ensure (split_path (shell_root @ parent)) (reg w)"
  let ?np = "nircmd_of h (nircmd_cache w)" and ?nok = "nircmd_ok h (nircmd_cache w)"
  obtain c where item: "subItem = Some c" and v: "valid_name subID" and mc: "menu_ok ?nok c"
    and okr: "items_ok ?nok rest"
    using "3.prems"(4) by (cases subItem) auto
  obtain k where y: "lookup_key ?y ?P = Some k" and srt: "sorted_names (subs k)" and wfy: "wf_key ?y"
    and ul: "\<not> locked k"
    using lookup_ensure_at[OF "3.prems"(1,2)] valid_split_path by blast
  obtain w1 where cc: "createContextMenu h parent subID subItem d w = Some (w1, None)"
    and r1: "reg w1 = map_at ?P (put_child subID (menu_key ?np d c)) ?y"
    and n1: "nircmd_of h (nircmd_cache w1) = ?np" "nircmd_ok h (nircmd_cache w1) = ?nok"
    using "3.IH"(1)[OF "3.prems"(1,2) _ v item mc] "3.prems"(3) by auto
  have wf1: "wf_key (reg w1)" using r1 wf_slot[OF wfy v wf_menu_key(1)[OF mc]] by simp
  have pu1: "path_unlocked (reg w1) ?P"
    using r1 y ul by (cases k) (simp add: lookup_map_at path_unlocked_existing)
  have er1: "\<forall>(i, it) \<in> set rest. erasable (reg w1) (?P @ [i])"
    using "3.prems"(3) r1 by (auto intro!: erasable_slot[OF y srt unlocked_menu_key(1)] erasable_ensure)
  obtain w' where ci: "createItems h parent rest d w1 = Some (w', None)"
    and r: "reg w' = (if rest = [] then reg w1
                      else map_at ?P (set_subs (menu_items ?np d rest)) (ensure ?P (reg w1)))"
    and n: "nircmd_of h (nircmd_cache w') = ?np" "nircmd_ok h (nircmd_cache w') = ?nok"
    using "3.IH"(2)[OF cc refl refl] wf1 pu1 er1 okr n1 by auto
  have "reg w' = map_at ?P (set_subs (menu_items ?np d ((subID, subItem) # rest))) ?y"
  proof (cases "rest = []")
    case True
    have "put_child subID (menu_key ?np d c) = set_subs (menu_items ?np d ((subID, subItem) # rest))"
      using item True by (auto simp: set_subs_def put_child_set_subs)
    then show ?thesis using r r1 True by simp
  next
    case False
    have "ensure ?P (reg w1) = reg w1" using r1 y by (simp add: ensure_existing lookup_map_at)
    moreover have "set_subs (menu_items ?np d rest) \<circ> put_child subID (menu_key ?np d c) =
        set_subs (menu_items ?np d ((subID, subItem) # rest))"
      using item by (auto simp: set_subs_def put_child_set_subs)
    ultimately show ?thesis using r r1 False by (simp add: map_at_map_at)
  qed
  then show ?case using cc ci n by simp
qed


lemma menu_items_put_subs: "menu_items np d its acc = put_subs (menu_entries np d its) acc"
  by (induction np d its arbitrary: acc rule: menu_entries.induct) (simp_all add: put_subs_Cons put_subs_def)

lemma menu_entries_filter:
  "menu_entries np d its = map (\<lambda>(i, it). (i, menu_key np d (the it))) (filter (\<lambda>(i, it). it \<noteq> None) its)"
  by (induction np d its rule: menu_entries.induct) simp_all

lemma mset_menu_entries:
  "mset its = mset its' \<Longrightarrow> mset (menu_entries np d its) = mset (menu_entries np d its')"
  by (simp add: menu_entries_filter mset_filter)

lemma fst_menu_entries: "fst ` set (menu_entries np d its) \<subseteq> fst ` set its"
  by (induction np d its rule: menu_entries.induct) auto

lemma distinct_menu_entries:
  "distinct (map (fold_name \<circ> fst) its) \<Longrightarrow> distinct (map (fold_name \<circ> fst) (menu_entries np d its))"
proof (induction np d its rule: menu_entries.induct)
  case (3 np d i c rest)
  then show ?case using fst_menu_entries[of np d rest] by force
qed simp_all

lemma items_ok_iff:
  "items_ok nok its \<longleftrightarrow> (\<forall>(i, it) \<in> set its. \<exists>c. it = Some c \<and> valid_name i \<and> menu_ok nok c)"
proof (induction its)
  case (Cons e its)
  obtain i it where e: "e = (i, it)" by fastforce
  then show ?case using Cons by (cases it) auto
qed simp

lemma createItems_append:
  "createItems h p (xs @ ys) d w =
     (case createItems h p xs d w of
        None \<Rightarrow> None
      | Some (w', Some e) \<Rightarrow> Some (w', Some e)
      | Some (w', None) \<Rightarrow> createItems h p ys d w')"
proof (induction xs arbitrary: w)
  case (Cons x xs)
  obtain i it where x: "x = (i, it)" by fastforce
  show ?case using Cons by (simp add: x split: option.split prod.split)
qed simp

lemma sorted_subs_set_subs:
  "sorted_names (subs k) \<Longrightarrow> sorted_names (subs (set_subs (put_subs L) k))"
  by (simp add: set_subs_def sorted_names_put_subs)

lemma find_sub_put_subs_other:
  "sorted_names cs \<Longrightarrow> \<forall>(m, e) \<in> set L. \<not> same_name j m \<Longrightarrow> find_sub j (put_subs L cs) = find_sub j cs"
proof (induction L arbitrary: cs)
  case (Cons b L)
  obtain m e where b: "b = (m, e)" by fastforce
  then show ?case using Cons by (simp add: put_subs_Cons find_sub_put_sub sorted_names_put_sub)
qed (simp add: put_subs_def)

lemma find_sub_put_subs_cases:
  "sorted_names cs \<Longrightarrow> find_sub j (put_subs L cs) = find_sub j cs \<or> find_sub j (put_subs L cs) \<in> Some ` snd ` set L"
proof (induction L arbitrary: cs)
  case (Cons b L)
  obtain m e where b: "b = (m, e)" by fastforce
  have "sorted_names (put_sub m e cs)" using Cons.prems by (rule sorted_names_put_sub)
  then show ?case using Cons.IH[of "put_sub m e cs"] Cons.prems b
    by (auto simp: put_subs_Cons find_sub_put_sub split: if_splits)
qed (simp add: put_subs_def)


lemma wf_menu_items:
  "items_ok nok its \<Longrightarrow> wf_key (RKey l vs acc) \<Longrightarrow> wf_key (RKey l vs (menu_items np d its acc))"
  using wf_menu_key(2)[of nok its acc np d] by simp

lemma wf_set_subs_menu:
  assumes "items_ok nok its" and "wf_key k"
  shows "wf_key (set_subs (menu_items np d its) k)"
proof (cases k)
  case (RKey l vs cs)
  then show ?thesis using wf_menu_items[OF assms(1), of l vs cs np d] assms(2)
    by (simp add: set_subs_def del: wf_key.simps)
qed

lemma snd_menu_entries: "snd ` set (menu_entries np d its) \<subseteq> range (menu_key np d)"
  by (induction np d its rule: menu_entries.induct) auto

lemma installed_key:
  assumes "wf_key s" and "path_unlocked s P" and "\<forall>n \<in> set P. valid_name n" and "items_ok nok its"
  obtains k where "lookup_key (ensure P s) P = Some k" and "sorted_names (subs k)" and "\<not> locked k"
    and "wf_key (ensure P s)"
    and "lookup_key (map_at P (set_subs (menu_items np d its)) (ensure P s)) P = Some (set_subs (menu_items np d its) k)"
    and "wf_key (map_at P (set_subs (menu_items np d its)) (ensure P s))"
    and "path_unlocked (map_at P (set_subs (menu_items np d its)) (ensure P s)) P"
proof -
  obtain k where y: "lookup_key (ensure P s) P = Some k" and srt: "sorted_names (subs k)" and ul: "\<not> locked k"
    and wfy: "wf_key (ensure P s)"
    using lookup_ensure_at[OF assms(1-3)] by blast
  have l: "lookup_key (map_at P (set_subs (menu_items np d its)) (ensure P s)) P = Some (set_subs (menu_items np d its) k)"
    using y by (simp add: lookup_map_at)
  have "wf_key (map_at P (set_subs (menu_items np d its)) (ensure P s))"
    using wfy by (rule wf_map_at) (auto intro: wf_set_subs_menu[OF assms(4)] dest: wf_lookup_key[OF wfy])
  moreover have "path_unlocked (map_at P (set_subs (menu_items np d its)) (ensure P s)) P"
    using l ul by (simp add: path_unlocked_existing set_subs_def)
  ultimately show ?thesis using that y srt ul wfy l by blast
qed


subsection \<open>Failures and shared facts\<close>

lemma names_command_shell: "\<not> same_name ''command'' ''shell'' \<and> \<not> same_name ''shell'' ''command''"
  by code_simp

lemma createContextMenu_result:
  assumes "wf_key (reg w)" and "path_unlocked (reg w) (split_path (shell_root @ parent))"
    and "erasable (reg w) (split_path (shell_root @ parent) @ [menuID])" and "valid_name menuID"
    and "menu_ok (nircmd_ok h (nircmd_cache w)) c"
  obtains w' k where "createContextMenu h parent menuID (Some c) d w = Some (w', None)"
    and "reg w' = map_at (split_path (shell_root @ parent))
              (put_child menuID (menu_key (nircmd_of h (nircmd_cache w)) d c))
              (ensure (split_path (shell_root @ parent)) (reg w))"
    and "lookup_key (ensure (split_path (shell_root @ parent)) (reg w)) (split_path (shell_root @ parent)) = Some k"
    and "sorted_names (subs k)"
proof -
  obtain k where "lookup_key (ensure (split_path (shell_root @ parent)) (reg w)) (split_path (shell_root @ parent)) = Some k"
    and "sorted_names (subs k)"
    using lookup_ensure_at[OF assms(1,2)] valid_split_path by blast
  then show ?thesis
    using that createContextMenu_createItems_spec(1)[OF assms(1-4) refl assms(5), of d] by blast
qed

lemma nircmd_search_error:
  "snd (nircmd_search h) = None \<or> snd (nircmd_search h) = Some (ENircmdNotFound ErrNotExist)"
  by (simp add: nircmd_search_def split: option.split prod.split bool.split)

lemma CommandString_fatal:
  assumes "admin c" and "\<not> nircmd_ok h cache"
  shows "fst (CommandString h cache c d) = Inl (Fatal (ENircmdNotFound ErrNotExist))"
proof -
  obtain p e where s: "nircmd_search h = (p, e)" by fastforce
  have "cache = []" and "e = Some (ENircmdNotFound ErrNotExist)"
    using assms(2) nircmd_search_error[of h] s by (auto simp: nircmd_ok_def)
  then show ?thesis using assms(1) s by (simp add: CommandString_def findNircmd_def)
qed

lemma install_command_fatal:
  assumes y: "lookup_key y P = Some k" and srt: "sorted_names (subs k)"
    and kp: "split_path kp = P @ [i]" and "admin c" and "\<not> nircmd_ok h (nircmd_cache w)"
  shows "\<exists>w'. install_command h kp c d (w\<lparr>reg := map_at P (put_child i (RKey False vs [])) y\<rparr>) =
              Some (w', Some (Fatal (ENircmdNotFound ErrNotExist))) \<and>
           reg w' = map_at P (put_child i (RKey False vs [(''command'', RKey False [] [])])) y"
proof -
  have kc: "split_path (kp @ backslash # ''command'') = P @ i # [''command'']"
  proof -
    have "valid_name ''command''" by (simp add: valid_name_def backslash_def)
    then show ?thesis using kp by (simp add: split_path_sub)
  qed
  obtain r cache' where cs: "CommandString h (nircmd_cache w) c d = (r, cache')" by fastforce
  have "r = Inl (Fatal (ENircmdNotFound ErrNotExist))" using CommandString_fatal[OF assms(4,5), of d] cs by simp
  then show ?thesis
    using cs by (simp add: install_command_def Let_def kc erase_step_missing lookup_slot[OF y srt]
        reg_step_create path_unlocked_slot[OF y srt] ensure_slot[OF y srt])
qed

lemma createContextMenu_locked:
  assumes "valid_name menuID" and "lookup_key (reg w) (split_path (shell_root @ parent) @ [menuID]) = Some t"
    and "locked t"
  shows "createContextMenu h parent menuID item d w =
           Some (w, Some (EDeleteKey (shell_root @ parent @ backslash # menuID)
                   (EDelOpen (shell_root @ parent @ backslash # menuID) (Errno ERROR_ACCESS_DENIED))))"
  using assms split_path_sub[OF assms(1), of "shell_root @ parent"]
  by (simp add: createContextMenu.simps Let_def erase_step_def deleteRegKeyRecursive_def reg_open_key_def)

lemma erasable_installed:
  assumes "lookup_key y P = Some k" and "sorted_names (subs k)" and "erasable y (P @ [j])"
  shows "erasable (map_at P (set_subs (menu_items np d its)) y) (P @ [j])"
proof -
  have l: "lookup_key (map_at P (set_subs (menu_items np d its)) y) (P @ [j]) =
      find_sub j (put_subs (menu_entries np d its) (subs k))"
    using assms(1) by (simp add: lookup_key_snoc lookup_map_at set_subs_def menu_items_put_subs)
  show ?thesis
  proof (cases "find_sub j (put_subs (menu_entries np d its) (subs k)) = find_sub j (subs k)")
    case True
    then show ?thesis using l assms(1,3) by (simp add: erasable_def lookup_key_snoc)
  next
    case False
    then obtain v where "find_sub j (put_subs (menu_entries np d its) (subs k)) = Some v"
      and "v \<in> range (menu_key np d)"
      using find_sub_put_subs_cases[OF assms(2), of j "menu_entries np d its"] snd_menu_entries[of np d its]
      by blast
    then show ?thesis using l unlocked_menu_key(1) by (auto simp: erasable_def)
  qed
qed

subsection \<open>Every outcome keeps the hive well-formed\<close>

text \<open>
  Each step combinator keeps the invariant \<open>wf_key\<close> when its registry call does and
  its continuation does; by induction on the calls, every outcome of an entry's call or
  of the loop, an error or a panic included, leaves a well-formed hive.
\<close>

lemma reg_step_wf:
  assumes "wf_key (reg w)" and "\<And>r. f (reg w) = Inr r \<Longrightarrow> wf_key r"
    and "\<And>w1. wf_key (reg w1) \<Longrightarrow> pred_option (\<lambda>(w', e). wf_key (reg w')) (k w1)"
  shows "pred_option (\<lambda>(w', e). wf_key (reg w')) (reg_step f wr w k)"
  using assms by (simp add: reg_step_def split: sum.split)

lemma reg_step_set_wf:
  assumes "wf_key (reg w)"
    and "\<And>w1. wf_key (reg w1) \<Longrightarrow> pred_option (\<lambda>(w', e). wf_key (reg w')) (k w1)"
  shows "pred_option (\<lambda>(w', e). wf_key (reg w')) (reg_step (\<lambda>r. reg_set_value r p n v) wr w k)"
  using assms wf_reg_set_value by (blast intro: reg_step_wf)

lemma reg_step_create_wf:
  assumes "wf_key (reg w)"
    and "\<And>w1. wf_key (reg w1) \<Longrightarrow> pred_option (\<lambda>(w', e). wf_key (reg w')) (k w1)"
  shows "pred_option (\<lambda>(w', e). wf_key (reg w')) (reg_step (\<lambda>r. reg_create_key r (split_path kp)) wr w k)"
  using assms wf_reg_create_key valid_split_path by (blast intro: reg_step_wf)

lemma erase_step_wf:
  assumes "wf_key (reg w)"
    and "\<And>w1. wf_key (reg w1) \<Longrightarrow> pred_option (\<lambda>(w', e). wf_key (reg w')) (k w1)"
  shows "pred_option (\<lambda>(w', e). wf_key (reg w')) (erase_step kp w k)"
proof (cases "deleteRegKeyRecursive (reg w) [] kp")
  case (Some r)
  obtain s' e where r: "r = (s', e)" by fastforce
  have "wf_key s'" using erase_wf(1) Some r assms(1) unfolding deleteRegKeyRecursive_def by blast
  then show ?thesis using Some r assms(2)[of "w\<lparr>reg := s'\<rparr>"] by (cases e) (simp_all add: erase_step_def)
qed (simp add: erase_step_def)

lemma set_if_wf:
  assumes "wf_key (reg w)"
    and "\<And>w1. wf_key (reg w1) \<Longrightarrow> pred_option (\<lambda>(w', e). wf_key (reg w')) (k w1)"
  shows "pred_option (\<lambda>(w', e). wf_key (reg w')) (set_if b n v p w k)"
  using assms by (simp add: set_if_def reg_step_set_wf)

lemma set_attrs_wf:
  assumes "wf_key (reg w)"
    and "\<And>w1. wf_key (reg w1) \<Longrightarrow> pred_option (\<lambda>(w', e). wf_key (reg w')) (k w1)"
  shows "pred_option (\<lambda>(w', e). wf_key (reg w')) (set_attrs c d p w k)"
  unfolding set_attrs_def Let_def using assms
  by (auto intro!: reg_step_set_wf set_if_wf)

lemma install_command_wf:
  assumes "wf_key (reg w)"
  shows "pred_option (\<lambda>(w', e). wf_key (reg w')) (install_command h kp c d w)"
  unfolding install_command_def Let_def using assms
  by (auto intro!: erase_step_wf reg_step_create_wf reg_step_set_wf split: prod.split sum.split)

lemma createContextMenu_createItems_wf:
  shows "wf_key (reg w) \<Longrightarrow> pred_option (\<lambda>(w', e). wf_key (reg w')) (createContextMenu h parent menuID item d w)"
    and "wf_key (reg w) \<Longrightarrow> pred_option (\<lambda>(w', e). wf_key (reg w')) (createItems h parent its d w)"
proof (induction h parent menuID item d w and h parent its d w rule: createContextMenu_createItems.induct)
  case (1 h parent menuID item d w)
  have IH: "pred_option (\<lambda>(w', e). wf_key (reg w')) (createItems h (parent @ backslash # menuID @ backslash # ''shell'') (items c) d w1)"
    if "item = Some c" and "cm_type c = ContextMenuType_Folder" and "wf_key (reg w1)" for c w1
    using "1.IH"[OF refl refl that(1,2)] that(3) by simp
  show ?case
    unfolding createContextMenu.simps[of h parent menuID item d w] Let_def using "1.prems"
    apply (auto intro!: erase_step_wf reg_step_create_wf set_attrs_wf install_command_wf reg_step_set_wf
        split: option.split)
    apply (rule IH; assumption)
    done
next
  case (3 h parent subID subItem rest d w)
  show ?case using "3.IH" "3.prems" by (auto split: option.split prod.split)
qed simp

subsection \<open>Every call returns\<close>

text \<open>
  The synchronizer never runs out of fuel: the only \<open>None\<close> a step can produce is the
  eraser's, which the fuel supplied by \<open>deleteRegKeyRecursive\<close> excludes.
\<close>

lemma reg_step_total: "(\<And>w1. k w1 \<noteq> None) \<Longrightarrow> reg_step f wr w k \<noteq> None"
  by (simp add: reg_step_def split: sum.split)

lemma erase_step_total: "(\<And>w1. k w1 \<noteq> None) \<Longrightarrow> erase_step kp w k \<noteq> None"
  using deleteRegKeyRecursive_total[of "reg w" "[]" kp] by (auto simp: erase_step_def split: option.split)

lemma set_if_total: "(\<And>w1. k w1 \<noteq> None) \<Longrightarrow> set_if b n v p w k \<noteq> None"
  by (simp add: set_if_def reg_step_total del: not_None_eq)

lemma set_attrs_total: "(\<And>w1. k w1 \<noteq> None) \<Longrightarrow> set_attrs c d p w k \<noteq> None"
  unfolding set_attrs_def Let_def by (intro reg_step_total set_if_total)

lemma install_command_total: "install_command h kp c d w \<noteq> None"
  unfolding install_command_def Let_def
  by (intro erase_step_total reg_step_total) (simp add: reg_step_def split: prod.split sum.split)

lemma createContextMenu_createItems_total:
  shows "createContextMenu h parent menuID item d w \<noteq> None"
    and "createItems h parent its d w \<noteq> None"
proof (induction h parent menuID item d w and h parent its d w rule: createContextMenu_createItems.induct)
  case (1 h parent menuID item d w)
  have IH: "createItems h (parent @ backslash # menuID @ backslash # ''shell'') (items c) d w1 \<noteq> None"
    if "item = Some c" and "cm_type c = ContextMenuType_Folder" for c w1
    using "1.IH"[OF refl refl that(1,2)] by simp
  show ?case
  proof (cases item)
    case None
    then show ?thesis unfolding createContextMenu.simps[of h parent menuID item d w] Let_def
      by (intro erase_step_total reg_step_total) simp
  next
    case (Some c)
    show ?thesis unfolding Some createContextMenu.simps[of h parent menuID "Some c" d w] Let_def option.case
      by (intro erase_step_total reg_step_total set_attrs_total)
        (simp add: reg_step_total install_command_total IH[OF Some] del: not_None_eq split: if_split)
  qed
next
  case (3 h parent subID subItem rest d w)
  show ?case using "3.IH" by (auto split: option.split prod.split)
qed simp

subsection \<open>Fields read by the steps\<close>

lemma set_attrs_fields:
  "set_attrs (ContextMenu t ti ip ii e a cmd its) = set_attrs (ContextMenu t' ti ip ii e a cmd' its')"
  unfolding set_attrs_def Icon_def context_menu.sel by (rule refl)

lemma install_command_fields:
  "install_command h kp (ContextMenu t ti ip ii e a cmd its) = install_command h kp (ContextMenu t' ti' ip' ii' e' a cmd its')"
  unfolding install_command_def CommandString_def context_menu.sel by (rule refl)

subsection \<open>Value kinds of the specified keys\<close>

lemma is_sz_simps [simp]: "is_sz (REG_SZ s)" "\<not> is_sz (REG_EXPAND_SZ s)"
  by (simp_all add: is_sz_def)

lemma set_put_sub: "set (put_sub n d cs) \<subseteq> insert (n, d) (set cs)"
  using set_del_sub[of n cs] by (auto simp: put_sub_def)

lemma menu_key_value_kinds:
  shows "value_kinds True (menu_key np d c)"
    and "\<forall>(n, k) \<in> set acc. value_kinds True k \<Longrightarrow> \<forall>(n, k) \<in> set (menu_items np d its acc). value_kinds True k"
proof (induction np d c and np d its acc rule: menu_key_menu_items.induct)
  case (1 np d c)
  have "\<forall>(n, v) \<in> set (menu_vals d c). is_sz v"
    by (auto simp: menu_vals_def attr_vals_def)
  then show ?case using "1.IH" by (simp add: menu_key.simps command_kinds_def)
next
  case (2 np d acc)
  then show ?case by (simp add: menu_key.simps)
next
  case (3 np d i rest acc)
  then show ?case by (simp add: menu_key.simps)
next
  case (4 np d i c rest acc)
  have "\<forall>(n, k) \<in> set (put_sub i (menu_key np d c) acc). value_kinds True k"
  proof (intro ballI, clarify)
    fix n k
    assume "(n, k) \<in> set (put_sub i (menu_key np d c) acc)"
    then have "(n, k) \<in> insert (i, menu_key np d c) (set acc)" by (rule subsetD[OF set_put_sub])
    then consider "k = menu_key np d c" | "(n, k) \<in> set acc" by blast
    then show "value_kinds True k"
    proof cases
      case 1
      then show ?thesis using "4.IH"(1) by simp
    next
      case 2
      then show ?thesis using "4.prems" by fastforce
    qed
  qed
  then show ?case using "4.IH"(2) by (simp add: menu_key.simps)
qed

subsection \<open>The key an entry's call installs\<close>

lemma createContextMenu_installed_key:
  assumes "wf_key (reg w)" and "path_unlocked (reg w) (split_path (shell_root @ parent))"
    and "erasable (reg w) (split_path (shell_root @ parent) @ [menuID])" and "valid_name menuID"
    and "menu_ok (nircmd_ok h (nircmd_cache w)) c"
  shows "\<exists>w'. createContextMenu h parent menuID (Some c) d w = Some (w', None) \<and>
           lookup_key (reg w') (split_path (shell_root @ parent) @ [menuID]) =
             Some (menu_key (nircmd_of h (nircmd_cache w)) d c)"
proof -
  let ?P = "split_path (shell_root @ parent)"
  obtain w' where run: "createContextMenu h parent menuID (Some c) d w = Some (w', None)"
    and r: "reg w' = map_at ?P (put_child menuID (menu_key (nircmd_of h (nircmd_cache w)) d c)) (ensure ?P (reg w))"
    using createContextMenu_createItems_spec(1)[OF assms(1-4) refl assms(5)] by blast
  obtain k where y: "lookup_key (ensure ?P (reg w)) ?P = Some k" and srt: "sorted_names (subs k)"
    using lookup_ensure_at[OF assms(1,2)] valid_split_path by blast
  have "lookup_key (reg w') (?P @ [menuID]) = Some (menu_key (nircmd_of h (nircmd_cache w)) d c)"
    using lookup_slot[OF y srt, of menuID _ "[]"] r by simp
  then show ?thesis using run by blast
qed

lemma menu_key_no_Icon: "icon_path c = [] \<Longrightarrow> find_sub ''Icon'' (vals (menu_key np d c)) = None"
  by (simp add: menu_key.simps menu_vals_def attr_vals_def Icon_def same_name_def fold_value_names)

lemma createContextMenu_fatal:
  assumes "wf_key (reg w)" and "path_unlocked (reg w) (split_path (shell_root @ parent))"
    and "erasable (reg w) (split_path (shell_root @ parent) @ [menuID])" and "valid_name menuID"
    and "cm_type c \<noteq> ContextMenuType_Folder" and "admin c" and "\<not> nircmd_ok h (nircmd_cache w)"
  shows "\<exists>w'. createContextMenu h parent menuID (Some c) d w = Some (w', Some (Fatal (ENircmdNotFound ErrNotExist))) \<and>
           lookup_key (reg w') (split_path (shell_root @ parent) @ [menuID, ''command'']) = Some (RKey False [] [])"
proof -
  let ?P = "split_path (shell_root @ parent)" and ?kp = "shell_root @ parent @ backslash # menuID"
  obtain k where y: "lookup_key (ensure ?P (reg w)) ?P = Some k" and srt: "sorted_names (subs k)"
    using lookup_ensure_at[OF assms(1,2)] valid_split_path by blast
  have kp: "split_path ?kp = ?P @ [menuID]" using split_path_sub[OF assms(4), of "shell_root @ parent"] by simp
  have "createContextMenu h parent menuID (Some c) d w =
      install_command h ?kp c d (w\<lparr>reg := map_at ?P (put_child menuID (RKey False (attr_vals d c) [])) (ensure ?P (reg w))\<rparr>)"
    using createContextMenu_created[OF assms(1-4), of h "Some c" d] assms(5)
    by (simp add: Let_def set_attrs_slot[OF y srt])
  then show ?thesis
    using install_command_fatal[OF y srt kp assms(6,7), of d "attr_vals d c"] lookup_slot[OF y srt] by auto
qed

end
