(* ===== verification/SyncProperties.thy ===== *)
theory SyncProperties
  imports Synchronizer
begin

text \<open>
  The properties of the tree synchronizer (spec, sections 4.3 and 8), derived from the
  functional specification \<open>createContextMenu_createItems_spec\<close>, and the inputs the
  witnesses evaluate them on.
\<close>

subsection \<open>Example inputs\<close>

text \<open>
  A host whose working directory holds the elevation helper in \<open>bin\<close>, a plain
  item, a folder, and a hive in which an earlier run left an entry \<open>open\<close> with a
  stale value and an empty command key.
\<close>

abbreviation demo_dir :: string where
  "demo_dir \<equiv> ''C:'' @ backslash # ''menu''"

abbreviation demo_host :: host where
  "demo_host \<equiv> \<lparr>getwd = Some demo_dir, executable = None,
     regular_files = [demo_dir @ backslash # ''bin'' @ backslash # ''nircmd.exe''],
     look_path = (\<lambda>_. ([], False))\<rparr>"

abbreviation demo_item :: context_menu where
  "demo_item \<equiv> ContextMenu ''item'' ''Open here'' [] None False False [''cmd.exe'', ''/k''] []"

abbreviation demo_hive :: rkey where
  "demo_hive \<equiv> map_at (split_path shell_root)
     (put_child ''open'' (RKey False [(''MUIVerb'', REG_SZ ''old'')] [(''command'', RKey False [] [])]))
     (new_keys (split_path shell_root))"

abbreviation demo_world :: world where
  "demo_world \<equiv> \<lparr>reg = demo_hive, nircmd_cache = []\<rparr>"

abbreviation demo_folder :: context_menu where
  "demo_folder \<equiv> ContextMenu ''folder'' ''Tools'' [] None True False [] [(''Go'', Some demo_item)]"

abbreviation demo_admin :: context_menu where
  "demo_admin \<equiv> ContextMenu ''item'' ''Run as administrator'' [] None False True [''cmd.exe''] []"

abbreviation demo_bare_host :: host where
  "demo_bare_host \<equiv> \<lparr>getwd = Some demo_dir, executable = None, regular_files = [],
     look_path = (\<lambda>_. ([], False))\<rparr>"

abbreviation demo_locked_world :: world where
  "demo_locked_world \<equiv> \<lparr>reg = map_at (split_path shell_root) (put_child ''Locked'' (RKey True [] [])) demo_hive,
     nircmd_cache = []\<rparr>"

abbreviation demo_items :: manifest where
  "demo_items \<equiv> [(''Open'', Some demo_item), (''Tools'', Some demo_folder)]"

lemma demo_hyps:
  "wf_key (reg demo_world) \<and> path_unlocked (reg demo_world) (split_path (shell_root @ [])) \<and>
   erasable (reg demo_world) (split_path (shell_root @ []) @ [''Open'']) \<and> valid_name ''Open'' \<and>
   menu_ok (nircmd_ok demo_host (nircmd_cache demo_world)) demo_item \<and>
   menu_ok (nircmd_ok demo_host (nircmd_cache demo_world)) demo_folder \<and>
   (\<forall>(i, it) \<in> set demo_items. erasable (reg demo_world) (split_path (shell_root @ []) @ [i])) \<and>
   items_ok (nircmd_ok demo_host (nircmd_cache demo_world)) demo_items"
  by code_simp

subsection \<open>Properties of the synchronizer\<close>

text \<open>
  C1: an entry's call succeeds on a well-formed hive whose parent path is not locked and
  whose old subtree can be erased, and leaves the hive with exactly the entry's image
  under the parent: the old subtree is gone, the parent is created if missing, nothing
  else changes.
\<close>

theorem createContextMenu_installs:
  assumes "wf_key (reg w)" and "path_unlocked (reg w) (split_path (shell_root @ parent))"
    and "erasable (reg w) (split_path (shell_root @ parent) @ [menuID])" and "valid_name menuID"
    and "menu_ok (nircmd_ok h (nircmd_cache w)) c"
  shows "\<exists>w'. createContextMenu h parent menuID (Some c) d w = Some (w', None) \<and>
           reg w' = map_at (split_path (shell_root @ parent))
                      (put_child menuID (menu_key (nircmd_of h (nircmd_cache w)) d c))
                      (ensure (split_path (shell_root @ parent)) (reg w))"
  using createContextMenu_createItems_spec(1)[OF assms(1-4) refl assms(5)] by blast

theorem createContextMenu_installs_witness:
  "\<exists>w'. createContextMenu demo_host [] ''Open'' (Some demo_item) demo_dir demo_world = Some (w', None) \<and>
      reg w' = map_at (split_path (shell_root @ []))
                 (put_child ''Open'' (menu_key (nircmd_of demo_host (nircmd_cache demo_world)) demo_dir demo_item))
                 (ensure (split_path (shell_root @ [])) (reg demo_world))"
  using demo_hyps createContextMenu_installs[of demo_world "[]" "''Open''" demo_host demo_item demo_dir]
  by blast

text \<open>
  C5: the install loop (the loop over a folder's entries, lines 62-67, and the loop of
  \<open>run\<close>, lines 104-109) succeeds on entries whose identifiers are key names and whose
  keys can be erased, and leaves every entry's image under the parent, a later entry
  replacing an earlier one of the same name up to case.
\<close>

theorem createItems_installs:
  assumes "wf_key (reg w)" and "path_unlocked (reg w) (split_path (shell_root @ parent))"
    and "\<forall>(i, it) \<in> set its. erasable (reg w) (split_path (shell_root @ parent) @ [i])"
    and "items_ok (nircmd_ok h (nircmd_cache w)) its"
  shows "\<exists>w'. createItems h parent its d w = Some (w', None) \<and>
           reg w' = (if its = [] then reg w
                     else map_at (split_path (shell_root @ parent))
                            (set_subs (menu_items (nircmd_of h (nircmd_cache w)) d its))
                            (ensure (split_path (shell_root @ parent)) (reg w)))"
  using createContextMenu_createItems_spec(2)[OF assms] by blast

theorem createItems_installs_witness:
  "\<exists>w'. createItems demo_host [] demo_items demo_dir demo_world = Some (w', None) \<and>
      reg w' = (if demo_items = [] then reg demo_world
                else map_at (split_path (shell_root @ []))
                  (set_subs (menu_items (nircmd_of demo_host (nircmd_cache demo_world)) demo_dir demo_items))
                  (ensure (split_path (shell_root @ [])) (reg demo_world)))"
  using demo_hyps createItems_installs[of demo_world "[]" demo_items demo_host demo_dir] by blast

text \<open>
  C8: erase completeness: after an entry's call the subtree at the entry's path is exactly
  the entry's image; nothing of what an earlier run left below that path survives.
\<close>

theorem createContextMenu_replaces:
  assumes "wf_key (reg w)" and "path_unlocked (reg w) (split_path (shell_root @ parent))"
    and "erasable (reg w) (split_path (shell_root @ parent) @ [menuID])" and "valid_name menuID"
    and "menu_ok (nircmd_ok h (nircmd_cache w)) c"
  shows "\<exists>w'. createContextMenu h parent menuID (Some c) d w = Some (w', None) \<and>
           lookup_key (reg w') (split_path (shell_root @ parent) @ [menuID]) =
             Some (menu_key (nircmd_of h (nircmd_cache w)) d c)"
proof -
  obtain w' k where e: "createContextMenu h parent menuID (Some c) d w = Some (w', None)"
    and r: "reg w' = map_at (split_path (shell_root @ parent))
              (put_child menuID (menu_key (nircmd_of h (nircmd_cache w)) d c))
              (ensure (split_path (shell_root @ parent)) (reg w))"
    and y: "lookup_key (ensure (split_path (shell_root @ parent)) (reg w)) (split_path (shell_root @ parent)) = Some k"
    and srt: "sorted_names (subs k)"
    using createContextMenu_result[OF assms] by blast
  show ?thesis using e r lookup_slot[OF y srt, of menuID _ "[]"] by auto
qed

theorem createContextMenu_replaces_witness:
  "\<exists>w'. createContextMenu demo_host [] ''Open'' (Some demo_item) demo_dir demo_world = Some (w', None) \<and>
      lookup_key (reg w') (split_path (shell_root @ []) @ [''Open'']) =
        Some (menu_key (nircmd_of demo_host (nircmd_cache demo_world)) demo_dir demo_item)"
  using demo_hyps createContextMenu_replaces[of demo_world "[]" "''Open''" demo_host demo_item demo_dir]
  by blast

text \<open>
  C9: variant exclusivity: after an entry's call its key has a \<open>command\<close> subkey exactly
  when the entry is an item and a \<open>shell\<close> container exactly when it is a folder,
  whatever the key held before (an item replaced by a folder or the reverse).
\<close>

theorem createContextMenu_variant_exclusive:
  assumes "wf_key (reg w)" and "path_unlocked (reg w) (split_path (shell_root @ parent))"
    and "erasable (reg w) (split_path (shell_root @ parent) @ [menuID])" and "valid_name menuID"
    and "menu_ok (nircmd_ok h (nircmd_cache w)) c"
  shows "\<exists>w'. createContextMenu h parent menuID (Some c) d w = Some (w', None) \<and>
           (lookup_key (reg w') (split_path (shell_root @ parent) @ [menuID, ''command'']) \<noteq> None \<longleftrightarrow>
              cm_type c \<noteq> ContextMenuType_Folder) \<and>
           (lookup_key (reg w') (split_path (shell_root @ parent) @ [menuID, ''shell'']) \<noteq> None \<longleftrightarrow>
              cm_type c = ContextMenuType_Folder)"
proof -
  obtain w' k where e: "createContextMenu h parent menuID (Some c) d w = Some (w', None)"
    and r: "reg w' = map_at (split_path (shell_root @ parent))
              (put_child menuID (menu_key (nircmd_of h (nircmd_cache w)) d c))
              (ensure (split_path (shell_root @ parent)) (reg w))"
    and y: "lookup_key (ensure (split_path (shell_root @ parent)) (reg w)) (split_path (shell_root @ parent)) = Some k"
    and srt: "sorted_names (subs k)"
    using createContextMenu_result[OF assms] by blast
  show ?thesis using e r lookup_slot[OF y srt, of menuID] names_command_shell by (auto simp: menu_key.simps)
qed

theorem createContextMenu_variant_exclusive_witness:
  "\<exists>w'. createContextMenu demo_host [] ''Open'' (Some demo_folder) demo_dir demo_world = Some (w', None) \<and>
      (lookup_key (reg w') (split_path (shell_root @ []) @ [''Open'', ''command'']) \<noteq> None \<longleftrightarrow>
         cm_type demo_folder \<noteq> ContextMenuType_Folder) \<and>
      (lookup_key (reg w') (split_path (shell_root @ []) @ [''Open'', ''shell'']) \<noteq> None \<longleftrightarrow>
         cm_type demo_folder = ContextMenuType_Folder)"
  using demo_hyps createContextMenu_variant_exclusive[of demo_world "[]" "''Open''" demo_host demo_folder demo_dir]
  by blast

text \<open>
  C30: a \<open>null\<close> entry of the manifest makes the call dereference a nil pointer after
  its key was erased and recreated: the loop stops with the panic, not wrapped, an empty
  key left in place and the later entries not attempted.
\<close>

theorem createContextMenu_nil_entry:
  assumes "wf_key (reg w)" and "path_unlocked (reg w) (split_path (shell_root @ parent))"
    and "erasable (reg w) (split_path (shell_root @ parent) @ [menuID])" and "valid_name menuID"
  shows "createItems h parent ((menuID, None) # rest) d w =
           Some (w\<lparr>reg := map_at (split_path (shell_root @ parent)) (put_child menuID (RKey False [] []))
                          (ensure (split_path (shell_root @ parent)) (reg w))\<rparr>, Some NilDeref)"
  using createContextMenu_created[OF assms, of h None d] by (simp add: Let_def)

theorem createContextMenu_nil_entry_witness:
  "createItems demo_host [] [(''Open'', None), (''Tools'', Some demo_folder)] demo_dir demo_world =
     Some (demo_world\<lparr>reg := map_at (split_path (shell_root @ [])) (put_child ''Open'' (RKey False [] []))
              (ensure (split_path (shell_root @ [])) (reg demo_world))\<rparr>, Some NilDeref)"
  using demo_hyps createContextMenu_nil_entry[of demo_world "[]" "''Open''" demo_host "[(''Tools'', Some demo_folder)]" demo_dir]
  by blast

text \<open>
  C31: an item that needs elevation when the helper cannot be found ends the run through
  \<open>log.Fatal\<close> in \<open>CommandString\<close>, after the item's key, values and an empty
  \<open>command\<close> subkey were written; the error carries no path or identifier.
\<close>

theorem createContextMenu_helper_missing:
  assumes "wf_key (reg w)" and "path_unlocked (reg w) (split_path (shell_root @ parent))"
    and "erasable (reg w) (split_path (shell_root @ parent) @ [menuID])" and "valid_name menuID"
    and "cm_type c \<noteq> ContextMenuType_Folder" and "admin c" and "\<not> nircmd_ok h (nircmd_cache w)"
  shows "\<exists>w'. createContextMenu h parent menuID (Some c) d w = Some (w', Some (Fatal (ENircmdNotFound ErrNotExist))) \<and>
           lookup_key (reg w') (split_path (shell_root @ parent) @ [menuID, ''command'']) = Some (RKey False [] [])"
  by (rule createContextMenu_fatal[OF assms])

theorem createContextMenu_helper_missing_witness:
  "\<exists>w'. createContextMenu demo_bare_host [] ''Open'' (Some demo_admin) demo_dir demo_world =
        Some (w', Some (Fatal (ENircmdNotFound ErrNotExist))) \<and>
      lookup_key (reg w') (split_path (shell_root @ []) @ [''Open'', ''command'']) = Some (RKey False [] [])"
proof -
  have h: "cm_type demo_admin \<noteq> ContextMenuType_Folder \<and> admin demo_admin \<and>
      \<not> nircmd_ok demo_bare_host (nircmd_cache demo_world)" by code_simp
  show ?thesis
    using demo_hyps h createContextMenu_helper_missing[of demo_world "[]" "''Open''" demo_admin demo_bare_host demo_dir]
    by blast
qed

text \<open>
  C10: fail-fast without rollback: when the key of an entry cannot be erased, the entries
  before it stay installed, the entries after it are not attempted, and the error names
  the entry and its path.
\<close>

theorem createItems_fail_fast:
  assumes "wf_key (reg w)" and "path_unlocked (reg w) (split_path (shell_root @ parent))"
    and "\<forall>(j, it) \<in> set prev. erasable (reg w) (split_path (shell_root @ parent) @ [j]) \<and> \<not> same_name j i"
    and "items_ok (nircmd_ok h (nircmd_cache w)) prev" and "valid_name i"
    and "lookup_key (reg w) (split_path (shell_root @ parent) @ [i]) = Some t" and "locked t"
  shows "\<exists>w'. createItems h parent (prev @ (i, it) # rest) d w =
             Some (w', Some (EMenu i (EDeleteKey (shell_root @ parent @ backslash # i)
                     (EDelOpen (shell_root @ parent @ backslash # i) (Errno ERROR_ACCESS_DENIED))))) \<and>
           reg w' = (if prev = [] then reg w
                     else map_at (split_path (shell_root @ parent))
                            (set_subs (menu_items (nircmd_of h (nircmd_cache w)) d prev))
                            (ensure (split_path (shell_root @ parent)) (reg w)))"
proof -
  let ?P = "split_path (shell_root @ parent)" and ?np = "nircmd_of h (nircmd_cache w)"
  have er: "\<forall>(j, it) \<in> set prev. erasable (reg w) (?P @ [j])" using assms(3) by auto
  obtain w1 where ci: "createItems h parent prev d w = Some (w1, None)"
    and r1: "reg w1 = (if prev = [] then reg w
                       else map_at ?P (set_subs (menu_items ?np d prev)) (ensure ?P (reg w)))"
    using createContextMenu_createItems_spec(2)[OF assms(1,2) er assms(4), of d] by blast
  obtain k0 where k0: "lookup_key (reg w) ?P = Some k0" and t: "find_sub i (subs k0) = Some t"
    using assms(6) by (auto simp: lookup_key_snoc split: option.splits)
  have srt: "sorted_names (subs k0)" using wf_lookup_key[OF assms(1) k0] by (cases k0) simp
  have other: "\<forall>(m, e) \<in> set (menu_entries ?np d prev). \<not> same_name i m"
  proof -
    have "\<not> same_name i m" if "(m, e) \<in> set (menu_entries ?np d prev)" for m e
    proof -
      have "m \<in> fst ` set prev" using that fst_menu_entries[of ?np d prev] by force
      then obtain it' where "(m, it') \<in> set prev" by auto
      then have "\<not> same_name m i" using assms(3) by auto
      then show ?thesis by (auto simp: same_name_def)
    qed
    then show ?thesis by auto
  qed
  have l1: "lookup_key (reg w1) (?P @ [i]) = Some t"
  proof (cases "prev = []")
    case False
    have "lookup_key (reg w1) ?P = Some (set_subs (menu_items ?np d prev) k0)"
      using r1 False k0 by (simp add: ensure_existing lookup_map_at)
    then have "lookup_key (reg w1) (?P @ [i]) = find_sub i (put_subs (menu_entries ?np d prev) (subs k0))"
      by (simp add: lookup_key_snoc set_subs_def menu_items_put_subs)
    then show ?thesis using find_sub_put_subs_other[OF srt other] t by simp
  qed (use r1 assms(6) in simp)
  have "createContextMenu h parent i it d w1 =
      Some (w1, Some (EDeleteKey (shell_root @ parent @ backslash # i)
        (EDelOpen (shell_root @ parent @ backslash # i) (Errno ERROR_ACCESS_DENIED))))"
    using assms(5) l1 assms(7) by (rule createContextMenu_locked)
  then show ?thesis using ci r1 by (simp add: createItems_append)
qed

theorem createItems_fail_fast_witness:
  "\<exists>w'. createItems demo_host [] ([(''Open'', Some demo_item)] @ (''Locked'', Some demo_item) # [(''Tools'', Some demo_folder)])
         demo_dir demo_locked_world =
       Some (w', Some (EMenu ''Locked'' (EDeleteKey (shell_root @ [] @ backslash # ''Locked'')
               (EDelOpen (shell_root @ [] @ backslash # ''Locked'') (Errno ERROR_ACCESS_DENIED))))) \<and>
     reg w' = (if [(''Open'', Some demo_item)] = [] then reg demo_locked_world
               else map_at (split_path (shell_root @ []))
                 (set_subs (menu_items (nircmd_of demo_host (nircmd_cache demo_locked_world)) demo_dir [(''Open'', Some demo_item)]))
                 (ensure (split_path (shell_root @ [])) (reg demo_locked_world)))"
proof -
  have h: "wf_key (reg demo_locked_world) \<and> path_unlocked (reg demo_locked_world) (split_path (shell_root @ [])) \<and>
   (\<forall>(j, it) \<in> set [(''Open'', Some demo_item)].
      erasable (reg demo_locked_world) (split_path (shell_root @ []) @ [j]) \<and> \<not> same_name j ''Locked'') \<and>
   items_ok (nircmd_ok demo_host (nircmd_cache demo_locked_world)) [(''Open'', Some demo_item)] \<and>
   valid_name ''Locked'' \<and>
   lookup_key (reg demo_locked_world) (split_path (shell_root @ []) @ [''Locked'']) = Some (RKey True [] []) \<and>
   locked (RKey True [] [])" by code_simp
  show ?thesis
    using h createItems_fail_fast[of demo_locked_world "[]" "[(''Open'', Some demo_item)]" "''Locked''"
        demo_host "RKey True [] []" "Some demo_item" "[(''Tools'', Some demo_folder)]" demo_dir]
    by blast
qed

text \<open>
  C6: idempotence: running the install loop a second time on the hive the first run left
  succeeds and leaves the same hive.
\<close>

theorem createItems_idempotent:
  assumes "wf_key (reg w)" and "path_unlocked (reg w) (split_path (shell_root @ parent))"
    and "\<forall>(i, it) \<in> set its. erasable (reg w) (split_path (shell_root @ parent) @ [i])"
    and "items_ok (nircmd_ok h (nircmd_cache w)) its"
    and "createItems h parent its d w = Some (w1, e1)"
  shows "e1 = None \<and> (\<exists>w2. createItems h parent its d w1 = Some (w2, None) \<and> reg w2 = reg w1)"
proof -
  let ?P = "split_path (shell_root @ parent)" and ?np = "nircmd_of h (nircmd_cache w)"
  let ?F = "set_subs (menu_items ?np d its)"
  obtain w1' where ci: "createItems h parent its d w = Some (w1', None)"
    and r1: "reg w1' = (if its = [] then reg w else map_at ?P ?F (ensure ?P (reg w)))"
    and n1: "nircmd_of h (nircmd_cache w1') = ?np" "nircmd_ok h (nircmd_cache w1') = nircmd_ok h (nircmd_cache w)"
    using createContextMenu_createItems_spec(2)[OF assms(1-4), of d] by blast
  have w1: "w1 = w1'" and e1: "e1 = None" using ci assms(5) by simp_all
  show ?thesis
  proof (cases "its = []")
    case False
    obtain k where y: "lookup_key (ensure ?P (reg w)) ?P = Some k" and srt: "sorted_names (subs k)"
      and l1: "lookup_key (map_at ?P ?F (ensure ?P (reg w))) ?P = Some (?F k)"
      and wf1: "wf_key (map_at ?P ?F (ensure ?P (reg w)))"
      and pu1: "path_unlocked (map_at ?P ?F (ensure ?P (reg w))) ?P"
      using installed_key[OF assms(1,2) _ assms(4), of ?np d] valid_split_path by blast
    have er1: "\<forall>(i, it) \<in> set its. erasable (reg w1) (?P @ [i])"
      using assms(3) r1 False w1 by (auto intro!: erasable_installed[OF y srt] erasable_ensure)
    obtain w2 where c2: "createItems h parent its d w1 = Some (w2, None)"
      and r2: "reg w2 = map_at ?P ?F (ensure ?P (reg w1))"
      using createContextMenu_createItems_spec(2)[of w1 parent its h d] r1 wf1 pu1 er1 assms(4) n1 False w1
      by auto
    have idem: "?F (?F k) = ?F k"
      using srt by (simp add: set_subs_def menu_items_put_subs put_subs_idem sorted_names_put_subs)
    have "reg w2 = map_at ?P (?F \<circ> ?F) (ensure ?P (reg w))"
      using r2 r1 False w1 l1 by (simp add: ensure_existing map_at_map_at)
    also have "\<dots> = reg w1" using r1 False w1 map_at_cong_at[OF y, of "?F \<circ> ?F" ?F] idem by simp
    finally show ?thesis using c2 e1 by blast
  qed (use w1 e1 in simp)
qed

theorem createItems_idempotent_witness:
  "snd (the (createItems demo_host [] demo_items demo_dir demo_world)) = None \<and>
   (\<exists>w2. createItems demo_host [] demo_items demo_dir (fst (the (createItems demo_host [] demo_items demo_dir demo_world))) =
          Some (w2, None) \<and> reg w2 = reg (fst (the (createItems demo_host [] demo_items demo_dir demo_world))))"
proof -
  have r: "createItems demo_host [] demo_items demo_dir demo_world =
     Some (fst (the (createItems demo_host [] demo_items demo_dir demo_world)),
           snd (the (createItems demo_host [] demo_items demo_dir demo_world)))" by code_simp
  show ?thesis
    using demo_hyps r createItems_idempotent[OF _ _ _ _ r] by blast
qed

text \<open>
  C7: the order in which the loop visits the entries (Go's map order) does not change the
  resulting hive when the identifiers are distinct up to case.
\<close>

theorem createItems_order_independent:
  assumes "wf_key (reg w)" and "path_unlocked (reg w) (split_path (shell_root @ parent))"
    and "\<forall>(i, it) \<in> set its. erasable (reg w) (split_path (shell_root @ parent) @ [i])"
    and "items_ok (nircmd_ok h (nircmd_cache w)) its"
    and "mset its' = mset its" and "distinct (map (fold_name \<circ> fst) its)"
  shows "\<exists>w1 w2. createItems h parent its d w = Some (w1, None) \<and>
           createItems h parent its' d w = Some (w2, None) \<and> reg w1 = reg w2"
proof -
  let ?P = "split_path (shell_root @ parent)" and ?np = "nircmd_of h (nircmd_cache w)"
  have set_eq: "set its' = set its" using assms(5) by (rule mset_eq_setD)
  have er': "\<forall>(i, it) \<in> set its'. erasable (reg w) (?P @ [i])" using assms(3) unfolding set_eq .
  have ok': "items_ok (nircmd_ok h (nircmd_cache w)) its'"
    using assms(4) unfolding items_ok_iff set_eq .
  have nil: "its' = [] \<longleftrightarrow> its = []" using set_eq by (metis set_empty)
  obtain w1 where c1: "createItems h parent its d w = Some (w1, None)"
    and r1: "reg w1 = (if its = [] then reg w else map_at ?P (set_subs (menu_items ?np d its)) (ensure ?P (reg w)))"
    using createContextMenu_createItems_spec(2)[OF assms(1-4), of d] by blast
  obtain w2 where c2: "createItems h parent its' d w = Some (w2, None)"
    and r2: "reg w2 = (if its' = [] then reg w else map_at ?P (set_subs (menu_items ?np d its')) (ensure ?P (reg w)))"
    using createContextMenu_createItems_spec(2)[OF assms(1,2) er' ok', of d] by blast
  obtain k where y: "lookup_key (ensure ?P (reg w)) ?P = Some k" and srt: "sorted_names (subs k)"
    using lookup_ensure_at[OF assms(1,2)] valid_split_path by blast
  have "put_subs (menu_entries ?np d its) (subs k) = put_subs (menu_entries ?np d its') (subs k)"
    using mset_menu_entries[OF assms(5), of ?np d, symmetric] distinct_menu_entries[OF assms(6)] srt
    by (rule put_subs_perm)
  then have "set_subs (menu_items ?np d its') k = set_subs (menu_items ?np d its) k"
    by (simp add: set_subs_def menu_items_put_subs)
  then have "map_at ?P (set_subs (menu_items ?np d its')) (ensure ?P (reg w)) =
      map_at ?P (set_subs (menu_items ?np d its)) (ensure ?P (reg w))"
    by (rule map_at_cong_at[OF y])
  then have "reg w1 = reg w2" using r1 r2 nil by simp
  then show ?thesis using c1 c2 by blast
qed

theorem createItems_order_independent_witness:
  "\<exists>w1 w2. createItems demo_host [] demo_items demo_dir demo_world = Some (w1, None) \<and>
      createItems demo_host [] (rev demo_items) demo_dir demo_world = Some (w2, None) \<and> reg w1 = reg w2"
proof -
  have m: "mset (rev demo_items) = mset demo_items" by simp
  have d: "distinct (map (fold_name \<circ> fst) demo_items)" by code_simp
  show ?thesis
    using demo_hyps m d createItems_order_independent[of demo_world "[]" demo_items demo_host "rev demo_items" demo_dir]
    by blast
qed

text \<open>
  C20: the entry type is an open string (spec, section 3, names only Item and Folder): an
  entry whose type is anything but exactly \<open>"folder"\<close> (a misspelling, another case,
  or the empty string of an absent field) is installed exactly as an item, and its nested
  entries are ignored.
\<close>

theorem createContextMenu_type_open:
  assumes "t \<noteq> ContextMenuType_Folder"
  shows "createContextMenu h parent menuID (Some (ContextMenu t ti ip ii e a cmd its)) d w =
         createContextMenu h parent menuID (Some (ContextMenu ContextMenuType_Item ti ip ii e a cmd [])) d w"
proof -
  have "ContextMenuType_Item \<noteq> ContextMenuType_Folder"
    by (simp add: ContextMenuType_Item_def ContextMenuType_Folder_def)
  moreover have "set_attrs (ContextMenu t ti ip ii e a cmd its) = set_attrs (ContextMenu ContextMenuType_Item ti ip ii e a cmd [])"
    by (simp add: set_attrs_fields)
  moreover have "install_command h kp (ContextMenu t ti ip ii e a cmd its) =
                 install_command h kp (ContextMenu ContextMenuType_Item ti ip ii e a cmd [])" for kp
    by (simp add: install_command_fields)
  ultimately show ?thesis using assms by (simp add: createContextMenu.simps Let_def cong: if_cong)
qed

theorem createContextMenu_type_open_witness:
  "createContextMenu demo_host [] ''Tools''
     (Some (ContextMenu ''Folder'' ''Tools'' [] None True False [] [(''Go'', Some demo_item)])) demo_dir demo_world =
   createContextMenu demo_host [] ''Tools''
     (Some (ContextMenu ContextMenuType_Item ''Tools'' [] None True False [] [])) demo_dir demo_world"
proof -
  have "''Folder'' \<noteq> ContextMenuType_Folder" by (simp add: ContextMenuType_Folder_def)
  then show ?thesis by (rule createContextMenu_type_open)
qed

text \<open>
  C21: value kinds (spec, sections 4.1 and 4.3): after an entry's call, every value under
  the entry's key is a plain string, except the default value of a command key, which is
  the one expandable string.
\<close>

theorem createContextMenu_value_kinds:
  assumes "wf_key (reg w)" and "path_unlocked (reg w) (split_path (shell_root @ parent))"
    and "erasable (reg w) (split_path (shell_root @ parent) @ [menuID])" and "valid_name menuID"
    and "menu_ok (nircmd_ok h (nircmd_cache w)) c"
  shows "\<exists>w' k. createContextMenu h parent menuID (Some c) d w = Some (w', None) \<and>
           lookup_key (reg w') (split_path (shell_root @ parent) @ [menuID]) = Some k \<and> value_kinds True k"
  using createContextMenu_installed_key[OF assms] menu_key_value_kinds(1) by blast

theorem createContextMenu_value_kinds_witness:
  "\<exists>w' k. createContextMenu demo_host [] ''Open'' (Some demo_item) demo_dir demo_world = Some (w', None) \<and>
      lookup_key (reg w') (split_path (shell_root @ []) @ [''Open'']) = Some k \<and> value_kinds True k"
  using demo_hyps createContextMenu_value_kinds[of demo_world "[]" "''Open''" demo_host demo_item demo_dir]
  by blast

text \<open>
  C25: an entry without an icon path gets no \<open>Icon\<close> value (spec, section 8): after its
  call, the entry's key holds no value named \<open>Icon\<close>, whatever the key held before.
\<close>

theorem createContextMenu_no_icon:
  assumes "wf_key (reg w)" and "path_unlocked (reg w) (split_path (shell_root @ parent))"
    and "erasable (reg w) (split_path (shell_root @ parent) @ [menuID])" and "valid_name menuID"
    and "menu_ok (nircmd_ok h (nircmd_cache w)) c" and "icon_path c = []"
  shows "\<exists>w' k. createContextMenu h parent menuID (Some c) d w = Some (w', None) \<and>
           lookup_key (reg w') (split_path (shell_root @ parent) @ [menuID]) = Some k \<and>
           find_sub ''Icon'' (vals k) = None"
  using createContextMenu_installed_key[OF assms(1-5)] menu_key_no_Icon[OF assms(6)] by blast

theorem createContextMenu_no_icon_witness:
  "\<exists>w' k. createContextMenu demo_host [] ''Open'' (Some demo_item) demo_dir demo_world = Some (w', None) \<and>
      lookup_key (reg w') (split_path (shell_root @ []) @ [''Open'']) = Some k \<and> find_sub ''Icon'' (vals k) = None"
  using demo_hyps createContextMenu_no_icon[of demo_world "[]" "''Open''" demo_host demo_item demo_dir] by simp

text \<open>
  C32: identifiers that differ only in case (distinct keys of the JSON object) name the
  same registry key: of two such entries the one the loop visits second wins, and the
  loop leaves exactly what installing that entry alone leaves. Which one Go's map
  iteration visits second is unspecified.
\<close>

theorem createItems_case_collision:
  assumes "wf_key (reg w)" and "path_unlocked (reg w) (split_path (shell_root @ parent))"
    and "erasable (reg w) (split_path (shell_root @ parent) @ [i])"
    and "erasable (reg w) (split_path (shell_root @ parent) @ [j])"
    and "items_ok (nircmd_ok h (nircmd_cache w)) [(i, Some a), (j, Some b)]" and "same_name j i"
  shows "\<exists>w'. createItems h parent [(i, Some a), (j, Some b)] d w = Some (w', None) \<and>
           reg w' = map_at (split_path (shell_root @ parent))
                      (put_child j (menu_key (nircmd_of h (nircmd_cache w)) d b))
                      (ensure (split_path (shell_root @ parent)) (reg w))"
proof -
  let ?P = "split_path (shell_root @ parent)" and ?np = "nircmd_of h (nircmd_cache w)"
  obtain w' where run: "createItems h parent [(i, Some a), (j, Some b)] d w = Some (w', None)"
    and r: "reg w' = map_at ?P (set_subs (menu_items ?np d [(i, Some a), (j, Some b)])) (ensure ?P (reg w))"
    using createContextMenu_createItems_spec(2)[OF assms(1,2) _ assms(5)] assms(3,4) by fastforce
  obtain k where y: "lookup_key (ensure ?P (reg w)) ?P = Some k" and srt: "sorted_names (subs k)"
    using lookup_ensure_at[OF assms(1,2)] valid_split_path by blast
  have "set_subs (menu_items ?np d [(i, Some a), (j, Some b)]) k = put_child j (menu_key ?np d b) k"
    using srt assms(6) by (simp add: menu_key.simps set_subs_def put_child_set_subs put_sub_absorb)
  then show ?thesis using run r map_at_cong_at[OF y] by metis
qed

theorem createItems_case_collision_witness:
  "\<exists>w'. createItems demo_host [] [(''Open'', Some demo_item), (''OPEN'', Some demo_folder)] demo_dir demo_world =
        Some (w', None) \<and>
      reg w' = map_at (split_path (shell_root @ []))
                 (put_child ''OPEN'' (menu_key (nircmd_of demo_host (nircmd_cache demo_world)) demo_dir demo_folder))
                 (ensure (split_path (shell_root @ [])) (reg demo_world))"
proof -
  have h: "erasable (reg demo_world) (split_path (shell_root @ []) @ [''Open'']) \<and>
    erasable (reg demo_world) (split_path (shell_root @ []) @ [''OPEN'']) \<and>
    items_ok (nircmd_ok demo_host (nircmd_cache demo_world)) [(''Open'', Some demo_item), (''OPEN'', Some demo_folder)] \<and>
    same_name ''OPEN'' ''Open''" by code_simp
  show ?thesis
    using demo_hyps h createItems_case_collision[of demo_world "[]" "''Open''" "''OPEN''" demo_host demo_item demo_folder demo_dir]
    by blast
qed

text \<open>
  C33: an identifier that contains a backslash is not one key name: the call for
  \<open>a\b\<close> is the call for the entry \<open>b\<close> under the parent path extended by \<open>a\<close>, so
  the entry is installed two levels down, under a key \<open>a\<close> created on the way.
\<close>

theorem createContextMenu_nested_id:
  "createContextMenu h parent (a @ backslash # b) item d w = createContextMenu h (parent @ backslash # a) b item d w"
  unfolding createContextMenu.simps[of h parent] createContextMenu.simps[of h "parent @ backslash # a"]
    append_assoc append_Cons by (rule refl)

end
