(* ===== verification/Runner.thy ===== *)
theory Runner
  imports SyncProperties
begin

text \<open>
  The entry point \<open>run\<close> (src/main.go, lines 86-111): locate the manifest, read it,
  decode it, and install its entries with the manifest's directory as the value of
  \<open>${manifestFolder}\<close>. Reading a file and \<open>json.Unmarshal\<close> are library calls the
  model takes as parameters (\<open>readFile\<close> and \<open>unmarshal\<close>), with their errors. The loop
  of lines 104-109 is \<open>createItems\<close> at the empty parent, which wraps each failure with
  the entry's identifier exactly as \<open>run\<close> does.
\<close>

definition run :: "host \<Rightarrow> (string \<Rightarrow> error + string) \<Rightarrow> (string \<Rightarrow> error + manifest) \<Rightarrow> world \<Rightarrow> outcome" where
  "run h readFile unmarshal w =
     (case findManifest h of
        (manifestPath, Some e) \<Rightarrow> Some (w, Some e)
      | (manifestPath, None) \<Rightarrow>
          (let manifestDir = fp_dir manifestPath in
           case readFile manifestPath of
             Inl e \<Rightarrow> Some (w, Some (EReadManifest e))
           | Inr manifestData \<Rightarrow>
               (case unmarshal manifestData of
                  Inl e \<Rightarrow> Some (w, Some (EParseManifest e))
                | Inr manifest \<Rightarrow> createItems h [] manifest manifestDir w)))"

lemma run_createItems:
  "findManifest h = (p, None) \<Longrightarrow> readFile p = Inr data \<Longrightarrow> unmarshal data = Inr m \<Longrightarrow>
   run h readFile unmarshal w = createItems h [] m (fp_dir p) w"
  by (simp add: run_def)

lemma run_found:
  "getwd h = Some wd \<Longrightarrow> is_file h (fp_join wd manifestFilename) \<Longrightarrow>
   readFile (fp_join wd manifestFilename) = Inr data \<Longrightarrow> unmarshal data = Inr m \<Longrightarrow>
   run h readFile unmarshal w = createItems h [] m (fp_dir (fp_join wd manifestFilename)) w"
  by (simp add: run_def findManifest_def)

lemma run_total: "run h readFile unmarshal w \<noteq> None"
  unfolding run_def Let_def
  by (simp add: createContextMenu_createItems_total(2) del: not_None_eq split: prod.split option.split sum.split)

subsection \<open>Example inputs\<close>

abbreviation demo_manifest_host :: host where
  "demo_manifest_host \<equiv> \<lparr>getwd = Some demo_dir, executable = None,
     regular_files = [demo_dir @ backslash # ''manifest.json'',
                      demo_dir @ backslash # ''bin'' @ backslash # ''nircmd.exe''],
     look_path = (\<lambda>_. ([], False))\<rparr>"

subsection \<open>Properties of a run\<close>

text \<open>
  C3: a run whose manifest is found in the working directory, read and decoded installs
  the manifest's entries under the shell root, with \<open>${manifestFolder}\<close> standing for
  the directory that holds the manifest.
\<close>

theorem run_installs:
  assumes "getwd h = Some wd" and "is_file h (fp_join wd manifestFilename)"
    and "readFile (fp_join wd manifestFilename) = Inr data" and "unmarshal data = Inr m"
    and "wf_key (reg w)" and "path_unlocked (reg w) (split_path shell_root)"
    and "\<forall>(i, it) \<in> set m. erasable (reg w) (split_path shell_root @ [i])"
    and "items_ok (nircmd_ok h (nircmd_cache w)) m"
  shows "\<exists>w'. run h readFile unmarshal w = Some (w', None) \<and>
           reg w' = (if m = [] then reg w
                     else map_at (split_path shell_root)
                            (set_subs (menu_items (nircmd_of h (nircmd_cache w))
                                        (fp_dir (fp_join wd manifestFilename)) m))
                            (ensure (split_path shell_root) (reg w)))"
proof -
  have f: "findManifest h = (fp_join wd manifestFilename, None)"
    using assms(1,2) by (simp add: findManifest_def)
  obtain w' where "createItems h [] m (fp_dir (fp_join wd manifestFilename)) w = Some (w', None)"
    and "reg w' = (if m = [] then reg w
                   else map_at (split_path shell_root)
                          (set_subs (menu_items (nircmd_of h (nircmd_cache w)) (fp_dir (fp_join wd manifestFilename)) m))
                          (ensure (split_path shell_root) (reg w)))"
    using createContextMenu_createItems_spec(2)[of w "[]" m h "fp_dir (fp_join wd manifestFilename)",
        unfolded append_Nil2] assms(5-8) by blast
  then show ?thesis using run_createItems[where readFile = readFile and unmarshal = unmarshal, OF f assms(3,4)] by simp
qed

theorem run_installs_witness:
  "\<exists>w'. run demo_manifest_host (\<lambda>_. Inr ''{}'') (\<lambda>_. Inr demo_items) demo_world = Some (w', None) \<and>
      reg w' = (if demo_items = [] then reg demo_world
                else map_at (split_path shell_root)
                       (set_subs (menu_items (nircmd_of demo_manifest_host (nircmd_cache demo_world))
                                   (fp_dir (fp_join demo_dir manifestFilename)) demo_items))
                       (ensure (split_path shell_root) (reg demo_world)))"
proof -
  have h: "getwd demo_manifest_host = Some demo_dir \<and> is_file demo_manifest_host (fp_join demo_dir manifestFilename) \<and>
   wf_key (reg demo_world) \<and> path_unlocked (reg demo_world) (split_path shell_root) \<and>
   (\<forall>(i, it) \<in> set demo_items. erasable (reg demo_world) (split_path shell_root @ [i])) \<and>
   items_ok (nircmd_ok demo_manifest_host (nircmd_cache demo_world)) demo_items" by code_simp
  show ?thesis
    using h run_installs[of demo_manifest_host demo_dir "\<lambda>_. Inr ''{}''" "''{}''" "\<lambda>_. Inr demo_items" demo_items demo_world]
    by simp
qed

text \<open>
  C34: when neither the working directory nor the program's directory holds the manifest,
  the run returns the not-found error and changes nothing.
\<close>

theorem run_manifest_not_found:
  assumes "\<forall>wd. getwd h = Some wd \<longrightarrow> \<not> is_file h (fp_join wd manifestFilename)"
    and "\<forall>ex. executable h = Some ex \<longrightarrow> \<not> is_file h (fp_join (fp_dir ex) manifestFilename)"
  shows "run h readFile unmarshal w = Some (w, Some (EManifestNotFound ErrNotExist))"
  using assms by (auto simp: run_def findManifest_def split: option.split)

theorem run_manifest_not_found_witness:
  "run demo_bare_host (\<lambda>_. Inr ''{}'') (\<lambda>_. Inr demo_items) demo_world =
     Some (demo_world, Some (EManifestNotFound ErrNotExist))"
proof -
  have h1: "\<forall>wd. getwd demo_bare_host = Some wd \<longrightarrow> \<not> is_file demo_bare_host (fp_join wd manifestFilename)"
    by (simp add: is_file_def)
  have h2: "\<forall>ex. executable demo_bare_host = Some ex \<longrightarrow> \<not> is_file demo_bare_host (fp_join (fp_dir ex) manifestFilename)"
    by simp
  show ?thesis using run_manifest_not_found[OF h1 h2] .
qed

end
