(* ===== verification/Messages.thy ===== *)
theory Messages
  imports Prelude
begin

text \<open>
  The text of the program's errors, as \<open>err.Error()\<close> produces it and \<open>log.Fatal\<close>
  prints it. Each \<open>fmt.Errorf\<close> of src/main.go contributes its format string, with
  \<open>%q\<close> (Go's \<open>strconv.Quote\<close>, \<open>go_quote\<close>) around the paths and identifiers it
  names and \<open>%w\<close> the text of the wrapped error. The leaves are the texts of the
  Win32 errors the registry reports (\<open>syscall.Errno.Error\<close>, English system messages)
  and of \<open>fs.ErrNotExist\<close>. \<open>go_quote\<close> is exact on ASCII: \<open>"\<close> and \<open>\\<close> are
  escaped, the seven C escapes are used, other control characters and DEL become
  \<open>\xHH\<close>; bytes from 128 are copied as they are, which is Go's output for printable
  runes of valid UTF-8 (the strings of a decoded manifest are valid UTF-8); the
  \<open>\u\<close> escapes Go uses for non-printable non-ASCII runes are not modelled.
  \<open>go_unquote_prefix\<close> is the matching decoder (the subset of
  \<open>strconv.Unquote\<close> that \<open>go_quote\<close> produces); it shows that the printed
  breadcrumb of an error determines the identifiers in it.
\<close>

definition lower_hex :: "nat \<Rightarrow> char" where
  "lower_hex n = (if n < 10 then char_of (48 + n) else char_of (87 + n))"

definition quote_char :: "char \<Rightarrow> string" where
  "quote_char c =
     (let n = of_char c :: nat in
      if c = dquote \<or> c = backslash then [backslash, c]
      else if 32 \<le> n \<and> n \<noteq> 127 then [c]
      else if n = 7 then [backslash, CHR ''a'']
      else if n = 8 then [backslash, CHR ''b'']
      else if n = 12 then [backslash, CHR ''f'']
      else if n = 10 then [backslash, CHR ''n'']
      else if n = 13 then [backslash, CHR ''r'']
      else if n = 9 then [backslash, CHR ''t'']
      else if n = 11 then [backslash, CHR ''v'']
      else [backslash, CHR ''x'', lower_hex (n div 16), lower_hex (n mod 16)])"

definition go_quote :: "string \<Rightarrow> string" where
  "go_quote s = dquote # concat (map quote_char s) @ [dquote]"

fun errno_string :: "errno \<Rightarrow> string" where
  "errno_string ERROR_FILE_NOT_FOUND = ''The system cannot find the file specified.''"
| "errno_string ERROR_ACCESS_DENIED = ''Access is denied.''"
| "errno_string ERROR_KEY_DELETED =
     ''Illegal operation attempted on a registry key that has been marked for deletion.''"

fun error_string :: "error \<Rightarrow> string" where
  "error_string (Errno n) = errno_string n"
| "error_string ErrNotExist = ''file does not exist''"
| "error_string (EManifestNotFound e) = ''manifest.json not found: '' @ error_string e"
| "error_string (EReadManifest e) = ''failed to read manifest.json: '' @ error_string e"
| "error_string (EParseManifest e) = ''failed to parse manifest.json: '' @ error_string e"
| "error_string (ENircmdNotFound e) = ''nircmd.exe not found: '' @ error_string e"
| "error_string (EDelOpen p e) =
     ''deleteRegKeyRecursive failed to open key path '' @ go_quote p @ '': '' @ error_string e"
| "error_string (EDelSubkeys p e) =
     ''deleteRegKeyRecursive failed to get subkeys of path '' @ go_quote p @ '': '' @ error_string e"
| "error_string (EDelSubkey n p e) =
     ''deleteRegKeyRecursive failed to delete subkey '' @ go_quote n @ '' of path '' @ go_quote p @
     '': '' @ error_string e"
| "error_string (EDelDelete p e) =
     ''deleteRegKeyRecursive failed to delete key path '' @ go_quote p @ '': '' @ error_string e"
| "error_string (EDeleteKey p e) = ''failed to delete registry key '' @ go_quote p @ '': '' @ error_string e"
| "error_string (ECreateKey p e) = ''failed to create registry key '' @ go_quote p @ '': '' @ error_string e"
| "error_string (ESetValue n e) = ''failed to set '' @ n @ '': '' @ error_string e"
| "error_string (ESetCommand e) = ''failed to set command string: '' @ error_string e"
| "error_string (EMenu i e) = ''failed to create context menu ID '' @ go_quote i @ '': '' @ error_string e"
| "error_string (Fatal e) = error_string e"
| "error_string NilDeref = ''runtime error: invalid memory address or nil pointer dereference''"

subsection \<open>The reference decoder\<close>

definition hex_val :: "char \<Rightarrow> nat option" where
  "hex_val c =
     (let n = of_char c :: nat in
      if 48 \<le> n \<and> n < 58 then Some (n - 48)
      else if 97 \<le> n \<and> n < 103 then Some (n - 87)
      else if 65 \<le> n \<and> n < 71 then Some (n - 55) else None)"

definition simple_escape :: "char \<Rightarrow> char option" where
  "simple_escape e =
     (if e = backslash \<or> e = dquote then Some e
      else if e = CHR ''a'' then Some (char_of (7::nat))
      else if e = CHR ''b'' then Some (char_of (8::nat))
      else if e = CHR ''f'' then Some (char_of (12::nat))
      else if e = CHR ''n'' then Some (char_of (10::nat))
      else if e = CHR ''r'' then Some (char_of (13::nat))
      else if e = CHR ''t'' then Some (char_of (9::nat))
      else if e = CHR ''v'' then Some (char_of (11::nat)) else None)"

text \<open>
  Decoding a quoted prefix: the text up to the closing quote, decoded, and the rest of
  the string after it (\<open>strconv.QuotedPrefix\<close> followed by \<open>strconv.Unquote\<close>).
\<close>

fun unquote_prefix :: "string \<Rightarrow> (string \<times> string) option" where
  "unquote_prefix [] = None"
| "unquote_prefix (c # r) =
     (if c = dquote then Some ([], r)
      else if c \<noteq> backslash then map_option (apfst (Cons c)) (unquote_prefix r)
      else (case r of
              [] \<Rightarrow> None
            | e # r' \<Rightarrow>
                if e = CHR ''x'' then
                  (case r' of
                     h1 # h2 # r'' \<Rightarrow>
                       (case (hex_val h1, hex_val h2) of
                          (Some a, Some b) \<Rightarrow> map_option (apfst (Cons (char_of (16 * a + b)))) (unquote_prefix r'')
                        | _ \<Rightarrow> None)
                   | _ \<Rightarrow> None)
                else (case simple_escape e of
                        Some x \<Rightarrow> map_option (apfst (Cons x)) (unquote_prefix r')
                      | None \<Rightarrow> None)))"

definition go_unquote_prefix :: "string \<Rightarrow> (string \<times> string) option" where
  "go_unquote_prefix s = (case s of c # cs \<Rightarrow> if c = dquote then unquote_prefix cs else None | [] \<Rightarrow> None)"

subsection \<open>Properties of the quoting\<close>

lemma hex_val_lower_hex: "n < 16 \<Longrightarrow> hex_val (lower_hex n) = Some n"
  by (simp add: hex_val_def lower_hex_def Let_def)

lemma unquote_prefix_quote_char:
  "unquote_prefix (quote_char c @ r) = map_option (apfst (Cons c)) (unquote_prefix r)"
proof -
  have bs: "backslash \<noteq> dquote" by (simp add: backslash_def dquote_def)
  define n where "n = (of_char c :: nat)"
  have c: "c = char_of n" by (simp add: n_def)
  have n256: "n < 256" by (simp add: n_def)
  show ?thesis
  proof (cases "c = dquote \<or> c = backslash")
    case True
    then show ?thesis using bs by (auto simp: quote_char_def simple_escape_def backslash_def dquote_def)
  next
    case nq: False
    show ?thesis
    proof (cases "32 \<le> n \<and> n \<noteq> 127")
      case True
      then show ?thesis using nq by (simp add: quote_char_def n_def[symmetric])
    next
      case False
      then have small: "n < 32 \<or> n = 127" by auto
      have hx: "char_of (16 * (n div 16) + n mod 16) = c" "n div 16 < 16" "n mod 16 < 16"
        using c n256 by (simp_all add: mult.commute)
      have "n \<noteq> 7 \<Longrightarrow> n \<noteq> 8 \<Longrightarrow> n \<noteq> 9 \<Longrightarrow> n \<noteq> 10 \<Longrightarrow> n \<noteq> 11 \<Longrightarrow> n \<noteq> 12 \<Longrightarrow> n \<noteq> 13 \<Longrightarrow> ?thesis"
        using nq False hx
        by (auto simp: quote_char_def n_def[symmetric] hex_val_lower_hex bs)
      moreover have "n = 7 \<or> n = 8 \<or> n = 9 \<or> n = 10 \<or> n = 11 \<or> n = 12 \<or> n = 13 \<Longrightarrow> ?thesis"
        using nq c[symmetric] by (elim disjE) (simp_all add: quote_char_def n_def[symmetric] simple_escape_def bs, simp_all add: backslash_def dquote_def)
      ultimately show ?thesis by blast
    qed
  qed
qed

lemma unquote_prefix_quoted:
  "unquote_prefix (concat (map quote_char s) @ dquote # rest) = Some (s, rest)"
  by (induction s) (simp_all add: unquote_prefix_quote_char)

text \<open>
  C19: the breadcrumb of an error message is unambiguous: two errors wrapped with a
  context-menu identifier print the same text only if the identifiers are equal and the
  wrapped errors print the same text, whatever characters the identifiers contain.
\<close>

theorem error_string_menu_injective:
  assumes "error_string (EMenu i e) = error_string (EMenu i' e')"
  shows "i = i' \<and> error_string e = error_string e'"
proof -
  have "go_quote i @ '': '' @ error_string e = go_quote i' @ '': '' @ error_string e'"
    using assms by simp
  then have "go_unquote_prefix (go_quote i @ '': '' @ error_string e) =
             go_unquote_prefix (go_quote i' @ '': '' @ error_string e')" by simp
  moreover have "go_unquote_prefix (go_quote x @ r) = Some (x, r)" for x r
    by (simp add: go_unquote_prefix_def go_quote_def unquote_prefix_quoted)
  ultimately show ?thesis by (simp only: option.inject prod.inject) simp
qed

theorem error_string_menu_injective_witness:
  "''Tools'' = ''Tools'' \<and> error_string (Fatal NilDeref) = error_string NilDeref"
proof -
  have "error_string (EMenu ''Tools'' (Fatal NilDeref)) = error_string (EMenu ''Tools'' NilDeref)" by simp
  then show ?thesis using error_string_menu_injective by blast
qed

end
