(* ===== verification/Process.thy ===== *)
theory Process
  imports Runner Messages
begin

text \<open>
  The process: \<open>main\<close> (src/main.go, lines 179-183) calls \<open>run\<close> and hands a
  returned error to \<open>log.Fatal\<close>, which prints it and exits with status 1; the
  \<open>log.Fatal\<close> of \<open>CommandString\<close> does the same from inside the run; the nil-pointer
  panic of a \<open>null\<close> entry ends the process with Go's status 2. \<open>main\<close> is modelled as
  the hive it leaves, the exit status, and the line written to standard error, without
  the timestamp \<open>log\<close> puts in front of it and without the goroutine trace that follows
  a panic's first line. \<open>None\<close> is the eraser running out of fuel, which never
  happens (\<open>main_exits\<close>).
\<close>

definition main :: "host \<Rightarrow> (string \<Rightarrow> error + string) \<Rightarrow> (string \<Rightarrow> error + manifest) \<Rightarrow> world \<Rightarrow>
    (world \<times> nat \<times> string) option" where
  "main h readFile unmarshal w =
     (case run h readFile unmarshal w of
        None \<Rightarrow> None
      | Some (w', None) \<Rightarrow> Some (w', 0, [])
      | Some (w', Some NilDeref) \<Rightarrow> Some (w', 2, ''panic: '' @ error_string NilDeref @ [CHR 0x0A])
      | Some (w', Some e) \<Rightarrow> Some (w', 1, error_string e @ [CHR 0x0A]))"

subsection \<open>Example inputs\<close>

abbreviation demo_manifest_only_host :: host where
  "demo_manifest_only_host \<equiv> \<lparr>getwd = Some demo_dir, executable = None,
     regular_files = [demo_dir @ backslash # ''manifest.json''], look_path = (\<lambda>_. ([], False))\<rparr>"

subsection \<open>Properties of the process\<close>

lemma errno_string_nonempty: "errno_string x \<noteq> []"
  by (cases x) simp_all

lemma error_string_nonempty: "error_string e \<noteq> []"
  by (induction e) (simp_all add: errno_string_nonempty)

text \<open>
  C4: the process always ends with an exit status (spec, section 6): zero exactly when
  the run installed everything, and then nothing is printed; otherwise non-zero, with the
  error printed.
\<close>

theorem main_exits:
  "\<exists>w' st msg. main h readFile unmarshal w = Some (w', st, msg) \<and>
     (st = 0 \<longleftrightarrow> run h readFile unmarshal w = Some (w', None)) \<and> (st = 0 \<longleftrightarrow> msg = [])"
proof -
  obtain w' e where r: "run h readFile unmarshal w = Some (w', e)"
    using run_total[of h readFile unmarshal w] by auto
  show ?thesis
  proof (cases e)
    case (Some x)
    then show ?thesis using r error_string_nonempty[of x] by (cases x) (simp_all add: main_def)
  qed (simp add: main_def r)
qed

text \<open>
  C2: a process whose manifest is found in the working directory, read and decoded exits
  with status zero, prints nothing, and leaves the manifest's entries installed under
  the shell root.
\<close>

theorem main_installs:
  assumes "getwd h = Some wd" and "is_file h (fp_join wd manifestFilename)"
    and "readFile (fp_join wd manifestFilename) = Inr data" and "unmarshal data = Inr m"
    and "wf_key (reg w)" and "path_unlocked (reg w) (split_path shell_root)"
    and "\<forall>(i, it) \<in> set m. erasable (reg w) (split_path shell_root @ [i])"
    and "items_ok (nircmd_ok h (nircmd_cache w)) m"
  shows "\<exists>w'. main h readFile unmarshal w = Some (w', 0, []) \<and>
           reg w' = (if m = [] then reg w
                     else map_at (split_path shell_root)
                            (set_subs (menu_items (nircmd_of h (nircmd_cache w))
                                        (fp_dir (fp_join wd manifestFilename)) m))
                            (ensure (split_path shell_root) (reg w)))"
proof -
  have f: "findManifest h = (fp_join wd manifestFilename, None)"
    using assms(1,2) by (simp add: findManifest_def)
  obtain w' where "createItems h [] m (fp_dir (fp_join wd manifestFilename)) w = Some (w', None)"
    and "reg w' = (if m = [] then reg w
                   else map_at (split_path shell_root)
                          (set_subs (menu_items (nircmd_of h (nircmd_cache w)) (fp_dir (fp_join wd manifestFilename)) m))
                          (ensure (split_path shell_root) (reg w)))"
    using createContextMenu_createItems_spec(2)[of w "[]" m h "fp_dir (fp_join wd manifestFilename)",
        unfolded append_Nil2] assms(5-8) by blast
  then show ?thesis using run_createItems[where readFile = readFile and unmarshal = unmarshal, OF f assms(3,4)] by (simp add: main_def)
qed

theorem main_installs_witness:
  "\<exists>w'. main demo_manifest_host (\<lambda>_. Inr ''{}'') (\<lambda>_. Inr demo_items) demo_world = Some (w', 0, []) \<and>
      reg w' = (if demo_items = [] then reg demo_world
                else map_at (split_path shell_root)
                       (set_subs (menu_items (nircmd_of demo_manifest_host (nircmd_cache demo_world))
                                   (fp_dir (fp_join demo_dir manifestFilename)) demo_items))
                       (ensure (split_path shell_root) (reg demo_world)))"
proof -
  have h: "getwd demo_manifest_host = Some demo_dir \<and> is_file demo_manifest_host (fp_join demo_dir manifestFilename) \<and>
   wf_key (reg demo_world) \<and> path_unlocked (reg demo_world) (split_path shell_root) \<and>
   (\<forall>(i, it) \<in> set demo_items. erasable (reg demo_world) (split_path shell_root @ [i])) \<and>
   items_ok (nircmd_ok demo_manifest_host (nircmd_cache demo_world)) demo_items" by code_simp
  show ?thesis
    using h main_installs[of demo_manifest_host demo_dir "\<lambda>_. Inr ''{}''" "''{}''" "\<lambda>_. Inr demo_items" demo_items demo_world]
    by simp
qed

text \<open>
  C16: the printed error is the whole chain of wrapped errors (spec, section 7): when the
  first entry's key exists and cannot be opened, the process exits with status 1 and
  prints the identifier, the key path and the eraser's failure, each path and identifier
  in Go's quoted form, and leaves the hive as it was.
\<close>

theorem main_locked_message:
  assumes "getwd h = Some wd" and "is_file h (fp_join wd manifestFilename)"
    and "readFile (fp_join wd manifestFilename) = Inr data" and "unmarshal data = Inr ((i, Some c) # rest)"
    and "valid_name i" and "lookup_key (reg w) (split_path shell_root @ [i]) = Some t" and "locked t"
  shows "main h readFile unmarshal w =
           Some (w, 1, ''failed to create context menu ID '' @ go_quote i @
                       '': failed to delete registry key '' @ go_quote (shell_root @ backslash # i) @
                       '': deleteRegKeyRecursive failed to open key path '' @ go_quote (shell_root @ backslash # i) @
                       '': Access is denied.'' @ [CHR 0x0A])"
proof -
  have kp: "split_path (shell_root @ backslash # i) = split_path shell_root @ [i]"
    using split_path_sub[OF assms(5), of shell_root] by simp
  have "deleteRegKeyRecursive (reg w) [] (shell_root @ backslash # i) =
        Some (reg w, Some (EDelOpen (shell_root @ backslash # i) (Errno ERROR_ACCESS_DENIED)))"
    using erase_locked[of "reg w" "[]" "shell_root @ backslash # i" t] assms(6,7) kp by simp
  then have "createContextMenu h [] i (Some c) (fp_dir (fp_join wd manifestFilename)) w =
      Some (w, Some (EDeleteKey (shell_root @ backslash # i)
                      (EDelOpen (shell_root @ backslash # i) (Errno ERROR_ACCESS_DENIED))))"
    by (simp add: createContextMenu.simps erase_step_def Let_def)
  then show ?thesis using run_found[where readFile = readFile and unmarshal = unmarshal, OF assms(1-4)] by (simp add: main_def)
qed

theorem main_locked_message_witness:
  "main demo_manifest_host (\<lambda>_. Inr ''{}'') (\<lambda>_. Inr [(''Locked'', Some demo_item)]) demo_locked_world =
   Some (demo_locked_world, 1, ''failed to create context menu ID '' @ go_quote ''Locked'' @
                       '': failed to delete registry key '' @ go_quote (shell_root @ backslash # ''Locked'') @
                       '': deleteRegKeyRecursive failed to open key path '' @ go_quote (shell_root @ backslash # ''Locked'') @
                       '': Access is denied.'' @ [CHR 0x0A])"
proof -
  have h: "getwd demo_manifest_host = Some demo_dir \<and> is_file demo_manifest_host (fp_join demo_dir manifestFilename) \<and>
    valid_name ''Locked'' \<and>
    lookup_key (reg demo_locked_world) (split_path shell_root @ [''Locked'']) = Some (RKey True [] []) \<and>
    locked (RKey True [] [])" by code_simp
  show ?thesis
    using h main_locked_message[of demo_manifest_host demo_dir "\<lambda>_. Inr ''{}''" "''{}''" "\<lambda>_. Inr [(''Locked'', Some demo_item)]"
        "''Locked''" demo_item "[]" demo_locked_world "RKey True [] []"] by simp
qed

text \<open>
  C17: when the first entry is an item that needs elevation and the helper cannot be
  found, the process exits with status 1 printing only the helper's error, without the
  identifier of the entry that needed it.
\<close>

theorem main_helper_missing_message:
  assumes "getwd h = Some wd" and "is_file h (fp_join wd manifestFilename)"
    and "readFile (fp_join wd manifestFilename) = Inr data" and "unmarshal data = Inr ((i, Some c) # rest)"
    and "wf_key (reg w)" and "path_unlocked (reg w) (split_path shell_root)"
    and "erasable (reg w) (split_path shell_root @ [i])" and "valid_name i"
    and "cm_type c \<noteq> ContextMenuType_Folder" and "admin c" and "\<not> nircmd_ok h (nircmd_cache w)"
  shows "\<exists>w'. main h readFile unmarshal w = Some (w', 1, ''nircmd.exe not found: file does not exist'' @ [CHR 0x0A])"
proof -
  obtain w' where "createContextMenu h [] i (Some c) (fp_dir (fp_join wd manifestFilename)) w =
      Some (w', Some (Fatal (ENircmdNotFound ErrNotExist)))"
    using createContextMenu_fatal[of w "[]" i c h] assms(5-11) by auto
  then show ?thesis using run_found[where readFile = readFile and unmarshal = unmarshal, OF assms(1-4)] by (simp add: main_def)
qed

theorem main_helper_missing_message_witness:
  "\<exists>w'. main demo_manifest_only_host (\<lambda>_. Inr ''{}'') (\<lambda>_. Inr [(''Admin'', Some demo_admin)]) demo_world =
     Some (w', 1, ''nircmd.exe not found: file does not exist'' @ [CHR 0x0A])"
proof -
  have h: "getwd demo_manifest_only_host = Some demo_dir \<and>
    is_file demo_manifest_only_host (fp_join demo_dir manifestFilename) \<and>
    wf_key (reg demo_world) \<and> path_unlocked (reg demo_world) (split_path shell_root) \<and>
    erasable (reg demo_world) (split_path shell_root @ [''Admin'']) \<and> valid_name ''Admin'' \<and>
    cm_type demo_admin \<noteq> ContextMenuType_Folder \<and> admin demo_admin \<and>
    \<not> nircmd_ok demo_manifest_only_host (nircmd_cache demo_world)" by code_simp
  show ?thesis
    using h main_helper_missing_message[of demo_manifest_only_host demo_dir "\<lambda>_. Inr ''{}''" "''{}''"
        "\<lambda>_. Inr [(''Admin'', Some demo_admin)]" "''Admin''" demo_admin "[]" demo_world] by simp
qed

text \<open>
  C18: a \<open>null\<close> first entry ends the process with Go's panic status 2 and the
  runtime's message, not with the error chain and status 1 of the other failures
  (spec, section 7, has no such case).
\<close>

theorem main_nil_panic:
  assumes "getwd h = Some wd" and "is_file h (fp_join wd manifestFilename)"
    and "readFile (fp_join wd manifestFilename) = Inr data" and "unmarshal data = Inr ((i, None) # rest)"
    and "wf_key (reg w)" and "path_unlocked (reg w) (split_path shell_root)"
    and "erasable (reg w) (split_path shell_root @ [i])" and "valid_name i"
  shows "\<exists>w'. main h readFile unmarshal w =
           Some (w', 2, ''panic: runtime error: invalid memory address or nil pointer dereference'' @ [CHR 0x0A])"
proof -
  have "\<exists>w'. createContextMenu h [] i None (fp_dir (fp_join wd manifestFilename)) w = Some (w', Some NilDeref)"
    using createContextMenu_created[of w "[]" i h None] assms(5-8) by (simp add: Let_def)
  then show ?thesis using run_found[where readFile = readFile and unmarshal = unmarshal, OF assms(1-4)] by (auto simp: main_def)
qed

theorem main_nil_panic_witness:
  "\<exists>w'. main demo_manifest_host (\<lambda>_. Inr ''{}'') (\<lambda>_. Inr [(''Open'', None)]) demo_world =
     Some (w', 2, ''panic: runtime error: invalid memory address or nil pointer dereference'' @ [CHR 0x0A])"
proof -
  have h: "getwd demo_manifest_host = Some demo_dir \<and> is_file demo_manifest_host (fp_join demo_dir manifestFilename) \<and>
    wf_key (reg demo_world) \<and> path_unlocked (reg demo_world) (split_path shell_root) \<and>
    erasable (reg demo_world) (split_path shell_root @ [''Open'']) \<and> valid_name ''Open''" by code_simp
  show ?thesis
    using h main_nil_panic[of demo_manifest_host demo_dir "\<lambda>_. Inr ''{}''" "''{}''" "\<lambda>_. Inr [(''Open'', None)]"
        "''Open''" "[]" demo_world] by simp
qed

end
