(* ===== verification/Spec2Isabelle.thy ===== *)
theory Spec2Isabelle
  imports Process
begin

text \<open>
  A verification development for context-menu-manager (src/main.go), a Go program that
  reads a manifest of context-menu entries and installs them under
  \<open>HKEY_CURRENT_USER\Software\Classes\Directory\Background\shell\<close> in the Windows
  registry, erasing whatever an earlier run left at each entry's key first.

  \<^bold>\<open>Parts of the program and where they are modelled.\<close> Theories are listed in
  import order; each opens with a text saying what it holds.
  \<^item> Prelude: the characters the program treats specially, the Go error values it
    creates (one constructor per \<open>fmt.Errorf\<close> call site, \<open>Fatal\<close> for
    \<open>log.Fatal\<close>), \<open>errors.Is(err, syscall.ENOENT)\<close> as \<open>is_enoent\<close>,
    \<open>strings.Join\<close> as \<open>join_with\<close>, and list lemmas the components share.
  \<^item> RegPath: the backslash-separated key paths the program concatenates and the
    registry splits into key names (\<open>split_path\<close>).
  \<^item> Registry: the namespace adapter, i.e. the calls into
    \<open>golang.org/x/sys/windows/registry\<close> (\<open>OpenKey\<close>, \<open>ReadSubKeyNames\<close>,
    \<open>CreateKey\<close>, \<open>DeleteKey\<close>, \<open>SetStringValue\<close>), modelled from the spec and the
    Win32 contract because that code is not in the repository. The hive is a tree
    \<open>rkey\<close> of keys, each with a \<open>locked\<close> flag (write access refused), values, and
    subkeys sorted by upper-cased name; names compare case-insensitively. The total
    operations \<open>map_at\<close>, \<open>remove_at\<close>, \<open>ensure\<close> and \<open>put_sub\<close> are the reference
    effects the adapter's operations are proved to have; \<open>wf_key\<close> is the hive
    invariant, preserved by every adapter operation. The \<open>put_sub\<close> algebra
    (absorption, commutation of distinct names, \<open>put_subs_perm\<close>) carries the
    order-independence proof. A code equation \<open>upcase_Char\<close> computes upper case
    bitwise, so that witnesses on hives evaluate quickly by \<open>code_simp\<close>.
  \<^item> Eraser: \<open>deleteRegKeyRecursive\<close> (src/main.go 243-282) as \<open>erase\<close> and
    its subkey loop \<open>erase_subkeys\<close>, on explicit state (the hive), returning the new
    hive and the Go \<open>err\<close>. It refines \<open>remove_at\<close> on erasable subtrees; on a locked
    child it stops after deleting the children before it (\<open>erase_subkeys_prefix\<close>).
  \<^item> Manifest: \<open>ContextMenu\<close> and its type constants (lines 185-205) as a
    datatype with the JSON fields; \<open>null\<close> entries are \<open>None\<close>; \<open>IconIndex\<close> is
    the Go \<open>int\<close> of the Windows targets, a \<open>64 word\<close> read by \<open>sint\<close>, so that its
    printed form is bounded (\<open>Icon_length\<close>: at most 20 characters).
  \<^item> Locator: \<open>findManifest\<close> (113-134) and \<open>findNircmd\<close> (136-177) over a
    read-only \<open>host\<close> record (working directory, executable, regular files,
    \<open>exec.LookPath\<close>); the process-wide \<open>_nircmdPath\<close> is an explicit cache
    passed in and returned. \<open>filepath.Join\<close>/\<open>Dir\<close> are \<open>fp_join\<close>/\<open>fp_dir\<close>.
  \<^item> Projector: \<open>quoteWindowsPath\<close>, \<open>Icon\<close> and \<open>CommandString\<close>
    (207-241, 284-286) with \<open>strings.ReplaceAll\<close> and \<open>strings.ContainsAny\<close>.
  \<^item> Synchronizer: \<open>createContextMenu\<close> (18-84) and the loop over a folder's
    entries as the mutual function \<open>createContextMenu\<close>/\<open>createItems\<close> on a
    \<open>world\<close> (hive and helper cache); every registry call is a \<open>reg_step\<close> or
    \<open>erase_step\<close>, and each Go early return is a \<open>Some (w, Some e)\<close> outcome, the nil
    dereference of a \<open>null\<close> entry is \<open>None\<close>. Termination is by the size of the
    manifest tree. Beside it, the declarative specification: \<open>menu_key\<close> is the key
    an entry should leave, \<open>menu_ok\<close> the conditions under which a call succeeds.
    The main theorem \<open>createContextMenu_createItems_spec\<close> (mutual induction) says
    that a call on a well-formed hive whose paths are unlocked and erasable succeeds
    and leaves exactly \<open>menu_key\<close> in the entry's slot; \<open>createContextMenu_createItems_wf\<close>
    says every outcome keeps the hive well formed.
  \<^item> SyncProperties: the spec's properties of the synchronizer, derived from the
    main theorem: installation, replacement, variant exclusivity, idempotence,
    independence of map order, fail-fast without rollback, the error paths, the kinds
    of the values written (plain strings, one expandable command line) and the open
    string of the entry type, with fixtures on which the witnesses evaluate.
  \<^item> Runner: \<open>run\<close> (86-111), with \<open>os.ReadFile\<close> and \<open>json.Unmarshal\<close> as
    parameters (library calls), and its success and not-found paths.
  \<^item> Messages: \<open>err.Error()\<close> of every error value (\<open>error_string\<close>): the format
    strings of the \<open>fmt.Errorf\<close> calls, \<open>%q\<close> as \<open>go_quote\<close> (Go's
    \<open>strconv.Quote\<close>, exact on ASCII; bytes from 128 are copied, which is Go's output
    for printable runes), the Win32 texts. A reference decoder \<open>go_unquote_prefix\<close>
    shows that the printed breadcrumb is unambiguous.
  \<^item> Process: \<open>main\<close> (179-183): the hive left, the exit status (0 on success, 1 for a
    returned error or \<open>log.Fatal\<close>, 2 for the nil panic) and the line printed to
    standard error. The process always exits (\<open>main_exits\<close>, through the totality
    lemmas \<open>createContextMenu_createItems_total\<close> and \<open>run_total\<close>), a successful
    run composes the locators, \<open>run\<close> and the synchronizer (\<open>main_installs\<close>), and
    the three failures of a first entry are characterised for any manifest and hive:
    the full printed chain of a key that cannot be opened, the unwrapped message of a
    missing helper, and the panic of a \<open>null\<close> entry.

  \<^bold>\<open>Fuel.\<close> The recursion of \<open>deleteRegKeyRecursive\<close> follows the keys of the
  hive; the model gives \<open>erase\<close> a fuel argument, \<open>None\<close> meaning the fuel ran out,
  and \<open>deleteRegKeyRecursive\<close> supplies one more unit than the hive has keys.
  \<open>deleteRegKeyRecursive_returns\<close> shows that this is always enough: the size of the
  subtree being erased bounds the depth of the recursion and never grows while the
  subkeys are erased (\<open>erase_size_mono\<close>). The synchronizer needs no fuel: its
  recursion is on the finite manifest tree and \<open>createContextMenu\<close> is total.

  \<^bold>\<open>Findings.\<close> Identifiers differing only in case collide and the last one visited
  in Go's random map order wins; a \<open>null\<close> entry panics; the fatal helper error is
  not wrapped with the entry's identifier; an identifier with a backslash installs a
  nested key; a command token without a space is never quoted, unlike the spec's
  example; the error for a failed parent key names the entry's own key; the entry type
  is an open string and anything but exactly \<open>"folder"\<close> installs an item, dropping
  nested entries.

  \<^bold>\<open>Not modelled.\<close> JSON decoding and file reading: \<open>run\<close> takes them as
  parameters with their errors, since they are library code. The timestamp \<open>log\<close>
  prefixes to the printed line and the goroutine trace of a panic: they depend on the
  clock and the runtime, not on the program. The \<open>\u\<close> escapes \<open>%q\<close> uses for
  non-printable non-ASCII runes: they need Unicode tables, and the identifiers of a
  manifest are printable text. The closing of registry handles: it has no effect on the
  hive.
\<close>

end
